theory Spec2Isabelle
  imports Complex_Main "HOL-Library.Sublist" "HOL-Library.AList"
begin

section \<open>Python strings\<close>

text \<open>
  A Python \<open>str\<close> is modelled as a \<open>string\<close>, one \<open>char\<close> per code point; the
  model covers the code points below 256. The string methods used by the repository are
  written out: \<open>lower\<close>, \<open>replace\<close>, \<open>strip\<close>, \<open>split\<close> without argument, the
  substring test \<open>in\<close> and \<open>join\<close>.
\<close>

definition py_isspace :: "char \<Rightarrow> bool" where
  "py_isspace c =
     (let n = (of_char c :: nat)
      in (9 \<le> n \<and> n \<le> 13) \<or> (28 \<le> n \<and> n \<le> 32) \<or> n = 133 \<or> n = 160)"

definition py_lower_char :: "char \<Rightarrow> char" where
  "py_lower_char c =
     (let n = (of_char c :: nat)
      in if (65 \<le> n \<and> n \<le> 90) \<or> (192 \<le> n \<and> n \<le> 222 \<and> n \<noteq> 215)
         then char_of (n + 32) else c)"

definition py_lower :: "string \<Rightarrow> string" where
  "py_lower s = map py_lower_char s"

text \<open>\<open>pat in s\<close>: \<open>pat\<close> occurs in \<open>s\<close> as a contiguous substring.\<close>

fun str_in :: "string \<Rightarrow> string \<Rightarrow> bool" where
  "str_in pat [] = (pat = [])"
| "str_in pat (c # cs) = (prefix pat (c # cs) \<or> str_in pat cs)"

text \<open>
  \<open>s.replace(old, new)\<close>: the non-overlapping occurrences of \<open>old\<close>, found from the
  left, are replaced. With an empty \<open>old\<close> Python puts \<open>new\<close> around every character.
\<close>

function str_replace :: "string \<Rightarrow> string \<Rightarrow> string \<Rightarrow> string" where
  "str_replace old new [] = (if old = [] then new else [])"
| "str_replace old new (c # cs) =
     (if old = [] then new @ c # str_replace old new cs
      else if prefix old (c # cs) then new @ str_replace old new (drop (length old) (c # cs))
      else c # str_replace old new cs)"
  by pat_completeness auto
termination
  by (relation "measure (\<lambda>(old, new, s). length s)") (auto simp: neq_Nil_conv)

definition py_strip :: "string \<Rightarrow> string" where
  "py_strip s = rev (dropWhile py_isspace (rev (dropWhile py_isspace s)))"

text \<open>
  \<open>s.split()\<close>: the maximal runs of non-whitespace characters, in order. \<open>split_ws w s\<close>
  carries the word read so far, reversed.
\<close>

fun split_ws :: "string \<Rightarrow> string \<Rightarrow> string list" where
  "split_ws w [] = (if w = [] then [] else [rev w])"
| "split_ws w (c # cs) =
     (if py_isspace c then (if w = [] then split_ws [] cs else rev w # split_ws [] cs)
      else split_ws (c # w) cs)"

definition py_split :: "string \<Rightarrow> string list" where
  "py_split s = split_ws [] s"

fun py_join :: "string \<Rightarrow> string list \<Rightarrow> string" where
  "py_join sep [] = []"
| "py_join sep [x] = x"
| "py_join sep (x # y # ys) = x @ sep @ py_join sep (y # ys)"


section \<open>Name normalisation and alias substitution (financials.py, lookup_symbol)\<close>

definition suffixes :: "string list" where
  "suffixes = ['' inc.'', '' inc'', '' corp.'', '' corp'', '' corporation'', '' ltd.'', '' ltd'',
               '' limited'', '' plc'', '' s.a.'', '' ag'', '' co.'', '','', ''.'']"

definition COMPANY_ALIASES :: "(string \<times> string) list" where
  "COMPANY_ALIASES = [(''alphabet inc'', ''google''), (''meta platforms'', ''facebook''),
                      (''amazon'', ''amazon.com''), (''berkshire hathaway'', ''brk'')]"

text \<open>The loop \<open>for suffix in [...]: name_to_search = name_to_search.replace(suffix, '')\<close>.\<close>

fun strip_suffixes :: "string list \<Rightarrow> string \<Rightarrow> string" where
  "strip_suffixes [] name = name"
| "strip_suffixes (sfx # rest) name = strip_suffixes rest (str_replace sfx [] name)"

text \<open>The alias loop: the first key, in the order of the table, that occurs in the name
  replaces it; the loop breaks there.\<close>

fun check_aliases :: "(string \<times> string) list \<Rightarrow> string \<Rightarrow> string" where
  "check_aliases [] name = name"
| "check_aliases ((alias_key, alias_value) # rest) name =
     (if str_in alias_key name then alias_value else check_aliases rest name)"

definition normalize_name :: "string \<Rightarrow> string" where
  "normalize_name company_name = py_strip (strip_suffixes suffixes (py_lower company_name))"

text \<open>\<open>name_to_search\<close> as it stands when \<open>symbol_lookup\<close> is called.\<close>

definition search_term :: "(string \<times> string) list \<Rightarrow> string \<Rightarrow> string" where
  "search_term aliases company_name = check_aliases aliases (normalize_name company_name)"


section \<open>Errors\<close>

text \<open>The Python exceptions that the modelled code can raise.\<close>

datatype error = ValueError | ZeroDivisionError | TypeError | IndexError | KeyError | OSError | ProviderError


section \<open>The rate limiter (\_wait\_for\_rate\_limit)\<close>

text \<open>
  \<open>FinnhubClient\<close> (financials.py), \<open>CompanyInfoClient\<close> (company\_info.py) and
  \<open>YFinanceClient\<close> (yf\_lookup.py) carry the same three fields and the same method
  body, so one model stands for the three. Times are seconds on a simulated clock, taken
  as real numbers. \<open>time.sleep\<close> raises \<open>ValueError\<close> on a negative duration and
  otherwise returns when the clock has advanced by the duration.
\<close>

record client =
  last_call_time :: real
  calls_this_minute :: int
  rate_limit :: int

text \<open>\<open>__init__\<close>; the source fixes \<open>rate_limit = 45\<close>, here it is the parameter \<open>c\<close>.\<close>

definition init_client :: "int \<Rightarrow> client" where
  "init_client c = \<lparr>last_call_time = 0, calls_this_minute = 0, rate_limit = c\<rparr>"

definition sleep :: "real \<Rightarrow> real \<Rightarrow> error + real" where
  "sleep secs clock = (if secs < 0 then Inl ValueError else Inr (clock + secs))"

text \<open>
  The method takes the client and the clock at entry and returns the client and the
  clock at exit. \<open>branch\<close> is the state after the \<open>if\<close>/\<open>elif\<close>; the two
  assignments after it are common to all paths and use \<open>current_time\<close>, read at entry.
\<close>

definition wait_for_rate_limit :: "client \<Rightarrow> real \<Rightarrow> error + (client \<times> real)" where
  "wait_for_rate_limit self clock =
     (let current_time = clock;
          minute_ago = current_time - 60;
          branch =
            (if last_call_time self < minute_ago
             then Inr (self\<lparr>calls_this_minute := 0\<rparr>, clock)
             else if rate_limit self \<le> calls_this_minute self
             then (let sleep_time = 60 - (current_time - last_call_time self)
                   in case sleep sleep_time clock of
                        Inl e \<Rightarrow> Inl e
                      | Inr clock' \<Rightarrow> Inr (self\<lparr>calls_this_minute := 0\<rparr>, clock'))
             else Inr (self, clock))
      in case branch of
           Inl e \<Rightarrow> Inl e
         | Inr (self1, clock1) \<Rightarrow>
             Inr (self1\<lparr>last_call_time := current_time,
                        calls_this_minute := calls_this_minute self1 + 1\<rparr>, clock1))"

text \<open>
  A driver for a simulated clock: the next acquire is made at time \<open>t\<close>, or when the
  previous one has returned if that is later.
\<close>

definition acquire_at :: "real \<Rightarrow> error + (client \<times> real) \<Rightarrow> error + (client \<times> real)" where
  "acquire_at t r =
     (case r of Inl e \<Rightarrow> Inl e | Inr (self, clock) \<Rightarrow> wait_for_rate_limit self (max clock t))"


section \<open>Symbol lookup (financials.py, FinnhubClient.lookup\_symbol)\<close>

text \<open>
  One entry of the provider's result list, with the three keys the code reads:
  \<open>type\<close>, \<open>symbol\<close> and \<open>description\<close>.
\<close>

record search_result =
  r_type :: string
  r_symbol :: string
  r_description :: string

text \<open>
  \<open>symbol_lookup\<close> is the provider: it raises, or it answers with the list under the key
  \<open>result\<close> (an answer without that key counts as the empty list, both are falsy for
  \<open>results.get('result')\<close>).
\<close>

type_synonym provider = "string \<Rightarrow> error + search_result list"

text \<open>First loop: exact matches with US listings.\<close>

fun exact_match_loop :: "string \<Rightarrow> string \<Rightarrow> search_result list \<Rightarrow> string option" where
  "exact_match_loop name_to_search company_name [] = None"
| "exact_match_loop name_to_search company_name (result # rest) =
     (if r_type result = ''Common Stock'' \<and>
         \<not> str_in ''.'' (r_symbol result) \<and>
         list_ex (\<lambda>name. str_in name (py_lower (r_description result)))
                 [name_to_search, py_lower company_name]
      then Some (r_symbol result)
      else exact_match_loop name_to_search company_name rest)"

text \<open>
  Second loop: partial matches with US listings. The quotient of the two set sizes is a
  Python float; it is exact enough for the comparison with 0.5 to be that of the
  rationals. An empty \<open>search_words\<close> raises \<open>ZeroDivisionError\<close>.
\<close>

fun partial_match_loop :: "string \<Rightarrow> search_result list \<Rightarrow> error + string option" where
  "partial_match_loop name_to_search [] = Inr None"
| "partial_match_loop name_to_search (result # rest) =
     (if r_type result = ''Common Stock'' \<and> \<not> str_in ''.'' (r_symbol result)
      then (let desc_words = set (py_split (py_lower (r_description result)));
                search_words = set (py_split name_to_search)
            in if card search_words = 0 then Inl ZeroDivisionError
               else if (of_nat (card (search_words \<inter> desc_words)) :: rat)
                         / of_nat (card search_words) > 1 / 2
               then Inr (Some (r_symbol result))
               else partial_match_loop name_to_search rest)
      else partial_match_loop name_to_search rest)"

text \<open>Third loop: any common stock.\<close>

fun any_common_stock_loop :: "search_result list \<Rightarrow> string option" where
  "any_common_stock_loop [] = None"
| "any_common_stock_loop (result # rest) =
     (if r_type result = ''Common Stock'' then Some (r_symbol result)
      else any_common_stock_loop rest)"

text \<open>
  The body of \<open>lookup_symbol\<close> after the rate limiter: the \<open>try\<close> block, where every
  exception gives \<open>None\<close>.
\<close>

definition lookup_symbol_body :: "(string \<times> string) list \<Rightarrow> provider \<Rightarrow> string \<Rightarrow> string option" where
  "lookup_symbol_body aliases symbol_lookup company_name =
     (let name_to_search = search_term aliases company_name
      in case symbol_lookup name_to_search of
           Inl e \<Rightarrow> None
         | Inr results \<Rightarrow>
             if results \<noteq> [] then
               (case exact_match_loop name_to_search company_name results of
                  Some symbol \<Rightarrow> Some symbol
                | None \<Rightarrow>
                    (case partial_match_loop name_to_search results of
                       Inl e \<Rightarrow> None
                     | Inr (Some symbol) \<Rightarrow> Some symbol
                     | Inr None \<Rightarrow> any_common_stock_loop results))
             else None)"

text \<open>
  \<open>lookup_symbol\<close>: the rate limiter runs first, outside the \<open>try\<close>; the result is the
  symbol with the client and the clock after the call.
\<close>

definition lookup_symbol ::
  "(string \<times> string) list \<Rightarrow> provider \<Rightarrow> client \<Rightarrow> real \<Rightarrow> string
     \<Rightarrow> error + (string option \<times> client \<times> real)" where
  "lookup_symbol aliases symbol_lookup self clock company_name =
     (case wait_for_rate_limit self clock of
        Inl e \<Rightarrow> Inl e
      | Inr (self', clock') \<Rightarrow>
          Inr (lookup_symbol_body aliases symbol_lookup company_name, self', clock'))"

text \<open>
  The tiers as the specification words them. \<open>view\<close> is what is read of a description:
  the description as the provider returned it, or its lower-case form.
\<close>

definition tier1 :: "(string \<Rightarrow> string) \<Rightarrow> string \<Rightarrow> string \<Rightarrow> search_result \<Rightarrow> bool" where
  "tier1 view transformed lowered r =
     (r_type r = ''Common Stock'' \<and> CHR ''.'' \<notin> set (r_symbol r) \<and>
      (str_in transformed (view (r_description r)) \<or> str_in lowered (view (r_description r))))"

definition overlap_ratio :: "string list \<Rightarrow> string list \<Rightarrow> rat" where
  "overlap_ratio description_words query_words =
     of_nat (card (set description_words \<inter> set query_words)) / of_nat (card (set query_words))"

definition tier2 :: "(string \<Rightarrow> string) \<Rightarrow> string \<Rightarrow> search_result \<Rightarrow> bool" where
  "tier2 view transformed r =
     (r_type r = ''Common Stock'' \<and> CHR ''.'' \<notin> set (r_symbol r) \<and>
      overlap_ratio (py_split (view (r_description r))) (py_split transformed) > 1 / 2)"

definition tier3 :: "search_result \<Rightarrow> bool" where
  "tier3 r = (r_type r = ''Common Stock'')"

definition first_symbol :: "(search_result \<Rightarrow> bool) \<Rightarrow> search_result list \<Rightarrow> string option" where
  "first_symbol P results = map_option r_symbol (find P results)"

definition tiered_symbol ::
  "(string \<Rightarrow> string) \<Rightarrow> string \<Rightarrow> string \<Rightarrow> search_result list \<Rightarrow> string option" where
  "tiered_symbol view transformed lowered results =
     (case first_symbol (tier1 view transformed lowered) results of
        Some symbol \<Rightarrow> Some symbol
      | None \<Rightarrow>
          (case first_symbol (tier2 view transformed) results of
             Some symbol \<Rightarrow> Some symbol
           | None \<Rightarrow> first_symbol tier3 results))"


section \<open>Documents and files\<close>

text \<open>
  A Python \<open>dict\<close> is an association list in insertion order; \<open>d[k] = v\<close> is
  \<open>AList.update k v d\<close> (the value is replaced in place, a new key goes to the end)
  and \<open>{**a, **b}\<close> is \<open>dict_merge a b\<close>.

  A value under \<open>mappings\<close> is \<open>null\<close>, a plain symbol string (the legacy shape) or
  an object with the keys \<open>sym\<close> and \<open>notes\<close>, each a string or \<open>null\<close>. A metadata
  value is \<open>null\<close>, a string or an integer.
\<close>

type_synonym 'v dict = "(string \<times> 'v) list"

definition dict_merge :: "'v dict \<Rightarrow> 'v dict \<Rightarrow> 'v dict" where
  "dict_merge a b = fold (\<lambda>(k, v) d. AList.update k v d) b a"

datatype mvalue = MNull | MStr string | MObj "string option" "string option"

datatype json = JNull | JStr string | JInt int

record document =
  metadata :: "json dict"
  mappings :: "mvalue dict"

text \<open>The taxonomy of enriched\_market\_matrix.json: sectors, subsectors, companies.\<close>

record company =
  co_name :: string
  co_market_cap :: string

record subsector =
  sub_name :: string
  sub_companies :: "company list"

record sector =
  sec_name :: string
  sec_subsectors :: "subsector list"

type_synonym market_data = "sector list"

text \<open>
  A file holds a mapping document, a taxonomy, or text that does not parse. The file
  system is a finite listing of paths with their files.
\<close>

datatype file_content = MappingFile document | MatrixFile market_data | RawFile string

type_synonym filesystem = "(string \<times> file_content) list"

definition path_exists :: "filesystem \<Rightarrow> string \<Rightarrow> bool" where
  "path_exists fs p = (map_of fs p \<noteq> None)"

definition write_file :: "filesystem \<Rightarrow> string \<Rightarrow> file_content \<Rightarrow> filesystem" where
  "write_file fs p f = AList.update p f fs"


section \<open>Numbered file names (file\_utils.py; the same code stands in yf\_lookup.py)\<close>

text \<open>\<open>str(counter)\<close> for a non-negative counter: its decimal digits.\<close>

definition digit_char :: "nat \<Rightarrow> char" where
  "digit_char d = char_of (48 + d)"

fun str_of_nat :: "nat \<Rightarrow> string" where
  "str_of_nat n = (if n < 10 then [digit_char n] else str_of_nat (n div 10) @ [digit_char (n mod 10)])"

declare str_of_nat.simps [simp del]

text \<open>\<open>s.rfind(c)\<close>: the last index of \<open>c\<close> in \<open>s\<close>, or -1.\<close>

definition rfind :: "char \<Rightarrow> string \<Rightarrow> int" where
  "rfind c s = (case filter (\<lambda>i. s ! i = c) (rev [0..<length s]) of [] \<Rightarrow> -1 | i # _ \<Rightarrow> int i)"

text \<open>
  \<open>os.path.splitext\<close> on POSIX: the extension starts at the last dot of the last path
  component, unless only dots stand before it in that component.
\<close>

definition splitext :: "string \<Rightarrow> string \<times> string" where
  "splitext p =
     (let sepIndex = rfind CHR ''/'' p;
          dotIndex = rfind CHR ''.'' p
      in if dotIndex > sepIndex \<and>
            list_ex (\<lambda>i. p ! i \<noteq> CHR ''.'') [nat (sepIndex + 1)..<nat dotIndex]
         then (take (nat dotIndex) p, drop (nat dotIndex) p)
         else (p, []))"

text \<open>
  The \<open>while True\<close> loop of \<open>get_next_available_filename\<close>: \<open>None\<close> stands for a loop
  that never returns.
\<close>

partial_function (option) next_numbered :: "filesystem \<Rightarrow> string \<Rightarrow> string \<Rightarrow> nat \<Rightarrow> string option" where
  "next_numbered fs name ext counter =
     (let new_filename = name @ ''_'' @ str_of_nat counter @ ext
      in if \<not> path_exists fs new_filename then Some new_filename
         else next_numbered fs name ext (counter + 1))"

declare next_numbered.simps [code]

definition get_next_available_filename :: "filesystem \<Rightarrow> string \<Rightarrow> string option" where
  "get_next_available_filename fs base_filename =
     (if \<not> path_exists fs base_filename then Some base_filename
      else case splitext base_filename of (name, ext) \<Rightarrow> next_numbered fs name ext 2)"


section \<open>Saving a mapping artifact\<close>

text \<open>\<open>get_total_companies\<close>: any failure to read the taxonomy gives 0.\<close>

definition count_companies :: "market_data \<Rightarrow> int" where
  "count_companies market =
     fold (\<lambda>sector total. fold (\<lambda>subsector total. total + int (length (sub_companies subsector)))
                                 (sec_subsectors sector) total) market 0"

definition get_total_companies :: "filesystem \<Rightarrow> int" where
  "get_total_companies fs =
     (case map_of fs ''enriched_market_matrix.json'' of
        Some (MatrixFile market) \<Rightarrow> count_companies market
      | _ \<Rightarrow> 0)"

text \<open>
  \<open>save_mappings\<close> of file\_utils.py returns the output file name and the file system
  after the write; \<open>None\<close> when the search for a name does not return.
\<close>

definition save_mappings ::
  "filesystem \<Rightarrow> mvalue dict \<Rightarrow> json dict \<Rightarrow> string \<Rightarrow> (string \<times> filesystem) option" where
  "save_mappings fs mappings_arg metadata_arg base_filename =
     (case get_next_available_filename fs base_filename of
        None \<Rightarrow> None
      | Some output_file \<Rightarrow>
          (let total_companies = get_total_companies fs;
               metadata' = AList.update ''total_companies'' (JInt total_companies) metadata_arg
           in Some (output_file,
                    write_file fs output_file
                      (MappingFile \<lparr>metadata = metadata', mappings = mappings_arg\<rparr>))))"

text \<open>\<open>save_mappings\<close> of yf\_lookup.py: the metadata is written as the caller gave it.\<close>

definition yf_save_mappings ::
  "filesystem \<Rightarrow> mvalue dict \<Rightarrow> json dict \<Rightarrow> string \<Rightarrow> (string \<times> filesystem) option" where
  "yf_save_mappings fs mappings_arg metadata_arg base_filename =
     (case get_next_available_filename fs base_filename of
        None \<Rightarrow> None
      | Some output_file \<Rightarrow>
          Some (output_file,
                write_file fs output_file
                  (MappingFile \<lparr>metadata = metadata_arg, mappings = mappings_arg\<rparr>)))"

text \<open>
  The sequence of names the specification speaks of: \<open>base\<close>, \<open>base_2\<close>, \<open>base_3\<close>, ...,
  the number going before the extension.
\<close>

definition numbered :: "string \<Rightarrow> nat \<Rightarrow> string" where
  "numbered base k =
     (if k \<le> 1 then base else fst (splitext base) @ ''_'' @ str_of_nat k @ snd (splitext base))"


section \<open>The resolution loops (financials.py and yf\_lookup.py)\<close>

text \<open>
  \<open>lookup_symbol\<close> of either client returns a symbol or \<open>None\<close> and changes the
  client (and the provider, and the clock). A resolver is any such state-passing
  function. \<open>if ticker:\<close> holds for a string that is not empty.
\<close>

type_synonym 's resolver = "'s \<Rightarrow> string \<Rightarrow> string option \<times> 's"

definition truthy :: "string option \<Rightarrow> bool" where
  "truthy ticker = (case ticker of None \<Rightarrow> False | Some text \<Rightarrow> text \<noteq> [])"

text \<open>A symbol or \<open>None\<close> as the value it is stored as in a mapping.\<close>

definition json_of_sym :: "string option \<Rightarrow> mvalue" where
  "json_of_sym value = (case value of None \<Rightarrow> MNull | Some t \<Rightarrow> MStr t)"

text \<open>An entry of \<open>unmapped_companies.json\<close>.\<close>

record unmapped_entry =
  u_name :: string
  u_sector :: string
  u_subsector :: string
  u_market_cap :: string

text \<open>
  The loop of \<open>process_unmapped_companies\<close> (the same in both files). Its state is
  \<open>new_mappings\<close>, \<open>newly_mapped\<close>, the state of the resolver and, for the statements
  below, the list of the names passed to \<open>lookup_symbol\<close> so far.
\<close>

fun unmapped_loop ::
  "'s resolver \<Rightarrow> mvalue dict \<Rightarrow> unmapped_entry list
     \<Rightarrow> mvalue dict \<times> int \<times> string list \<times> 's \<Rightarrow> mvalue dict \<times> int \<times> string list \<times> 's" where
  "unmapped_loop lookup existing_mappings [] st = st"
| "unmapped_loop lookup existing_mappings (company # rest) (new_mappings, newly_mapped, calls, s) =
     (let company_name = u_name company
      in if map_of existing_mappings company_name = None
         then (case lookup s company_name of
                 (ticker, s') \<Rightarrow>
                   if truthy ticker
                   then unmapped_loop lookup existing_mappings rest
                          (AList.update company_name (json_of_sym ticker) new_mappings,
                           newly_mapped + 1, calls @ [company_name], s')
                   else unmapped_loop lookup existing_mappings rest
                          (new_mappings, newly_mapped, calls @ [company_name], s'))
         else unmapped_loop lookup existing_mappings rest (new_mappings, newly_mapped, calls, s))"

definition process_unmapped :: "'s resolver \<Rightarrow> mvalue dict \<Rightarrow> unmapped_entry list \<Rightarrow> 's
    \<Rightarrow> mvalue dict \<times> int \<times> string list \<times> 's" where
  "process_unmapped lookup existing_mappings unmapped s =
     unmapped_loop lookup existing_mappings unmapped ([], 0, [], s)"

definition new_mappings_of :: "mvalue dict \<times> int \<times> string list \<times> 's \<Rightarrow> mvalue dict" where
  "new_mappings_of st = fst st"

definition calls_of :: "mvalue dict \<times> int \<times> string list \<times> 's \<Rightarrow> string list" where
  "calls_of st = fst (snd (snd st))"

text \<open>\<open>updated_mappings = {**existing_mappings, **new_mappings}\<close>, the mapping that is saved.\<close>

definition updated_mappings :: "mvalue dict \<times> int \<times> string list \<times> 's \<Rightarrow> mvalue dict \<Rightarrow> mvalue dict" where
  "updated_mappings st existing_mappings = dict_merge existing_mappings (new_mappings_of st)"

text \<open>
  The loops of \<open>create_company_ticker_map\<close> (the same in both files): over the sectors,
  their subsectors and their companies, with the map being built as the state.
\<close>

fun companies_loop :: "'s resolver \<Rightarrow> company list \<Rightarrow> mvalue dict \<times> 's \<Rightarrow> mvalue dict \<times> 's" where
  "companies_loop lookup [] st = st"
| "companies_loop lookup (company # rest) (company_ticker_map, s) =
     (let company_name = co_name company
      in if map_of company_ticker_map company_name = None
         then (case lookup s company_name of
                 (ticker, s') \<Rightarrow>
                   if truthy ticker
                   then companies_loop lookup rest
                          (AList.update company_name (json_of_sym ticker) company_ticker_map, s')
                   else companies_loop lookup rest (company_ticker_map, s'))
         else companies_loop lookup rest (company_ticker_map, s))"

fun subsectors_loop :: "'s resolver \<Rightarrow> subsector list \<Rightarrow> mvalue dict \<times> 's \<Rightarrow> mvalue dict \<times> 's" where
  "subsectors_loop lookup [] st = st"
| "subsectors_loop lookup (subsector # rest) st =
     subsectors_loop lookup rest (companies_loop lookup (sub_companies subsector) st)"

fun sectors_loop :: "'s resolver \<Rightarrow> sector list \<Rightarrow> mvalue dict \<times> 's \<Rightarrow> mvalue dict \<times> 's" where
  "sectors_loop lookup [] st = st"
| "sectors_loop lookup (sector # rest) st =
     sectors_loop lookup rest (subsectors_loop lookup (sec_subsectors sector) st)"

definition create_company_ticker_map :: "'s resolver \<Rightarrow> market_data \<Rightarrow> 's \<Rightarrow> mvalue dict \<times> 's" where
  "create_company_ticker_map lookup market s = sectors_loop lookup market ([], s)"


text \<open>A value that is a symbol: a string that is not empty.\<close>

definition is_symbol :: "mvalue \<Rightarrow> bool" where
  "is_symbol v = (case v of MStr t \<Rightarrow> t \<noteq> [] | _ \<Rightarrow> False)"

text \<open>
  A deterministic resolver for the examples: it knows X and Y, and counts its calls in
  its state.
\<close>

definition xy_answer :: "string \<Rightarrow> string option" where
  "xy_answer n = (if n = ''X'' then Some ''XX'' else if n = ''Y'' then Some ''YY'' else None)"

definition xy_resolver :: "nat resolver" where
  "xy_resolver s n = (xy_answer n, s + 1)"

definition entry :: "string \<Rightarrow> unmapped_entry" where
  "entry n = \<lparr>u_name = n, u_sector = ''Tech'', u_subsector = ''Software'', u_market_cap = ''1B''\<rparr>"


text \<open>
  For the statements about the two loops: the names of the companies of a taxonomy in
  the order of the loops; the answers of a resolver to a list of names asked in turn,
  the state going from one call to the next; and the mapping obtained by storing, of a
  list of answers, those that are a symbol, and only those.
\<close>

definition company_names :: "market_data \<Rightarrow> string list" where
  "company_names market =
     concat (map (\<lambda>sector. concat (map (\<lambda>subsector. map co_name (sub_companies subsector))
                                          (sec_subsectors sector))) market)"

fun answers :: "'s resolver \<Rightarrow> 's \<Rightarrow> string list \<Rightarrow> (string \<times> string option) list" where
  "answers lookup s [] = []"
| "answers lookup s (n # ns) =
     (case lookup s n of (ticker, s') \<Rightarrow> (n, ticker) # answers lookup s' ns)"

definition store_answers :: "(string \<times> string option) list \<Rightarrow> mvalue dict \<Rightarrow> mvalue dict" where
  "store_answers given d =
     fold (\<lambda>(n, ticker) d. if truthy ticker then AList.update n (json_of_sym ticker) d else d) given d"


section \<open>The Perplexity batch flow (process\_market\_data.py)\<close>

text \<open>
  One object of the list that \<open>get_tickers_from_perplexity\<close> returns. The function is
  the provider of this flow; it catches its own errors and returns the empty list then.
\<close>

record ticker_result =
  t_name :: string
  t_sym :: "string option"
  t_notes :: "string option"

type_synonym 's batch_provider = "'s \<Rightarrow> unmapped_entry list \<Rightarrow> ticker_result list \<times> 's"

text \<open>\<open>for result in results: new_mappings[result["name"]] = result["sym"]\<close>.\<close>

fun add_new_mappings :: "ticker_result list \<Rightarrow> mvalue dict \<Rightarrow> mvalue dict" where
  "add_new_mappings [] new_mappings = new_mappings"
| "add_new_mappings (result # rest) new_mappings =
     add_new_mappings rest (AList.update (t_name result) (json_of_sym (t_sym result)) new_mappings)"

text \<open>
  \<open>for i in range(0, total_companies, batch_size): batch = companies[i:i + batch_size]\<close>,
  for a positive \<open>batch_size\<close>; \<open>i\<close> is how far the list has been consumed.
\<close>

function batches_loop ::
  "'s batch_provider \<Rightarrow> nat \<Rightarrow> unmapped_entry list \<Rightarrow> mvalue dict \<times> 's \<Rightarrow> mvalue dict \<times> 's" where
  "batches_loop provider batch_size companies (new_mappings, s) =
     (if batch_size = 0 \<or> companies = [] then (new_mappings, s)
      else (case provider s (take batch_size companies) of
              (results, s') \<Rightarrow>
                batches_loop provider batch_size (drop batch_size companies)
                  (add_new_mappings results new_mappings, s')))"
  by pat_completeness auto
termination
  by (relation "measure (\<lambda>(provider, batch_size, companies, st). length companies)") auto

text \<open>
  The batch part of \<open>process_unmapped_with_perplexity\<close>: \<open>range\<close> raises \<open>ValueError\<close>
  on a step of zero and is empty on a negative step.
\<close>

definition perplexity_new_mappings ::
  "'s batch_provider \<Rightarrow> int \<Rightarrow> unmapped_entry list \<Rightarrow> 's \<Rightarrow> error + (mvalue dict \<times> 's)" where
  "perplexity_new_mappings provider batch_size companies s =
     (if batch_size = 0 then Inl ValueError
      else if batch_size < 0 then Inr ([], s)
      else Inr (batches_loop provider (nat batch_size) companies ([], s)))"


text \<open>
  For the statements about the batch flow: the result objects that the provider returns
  over all the batches, in order.
\<close>

function batch_results ::
  "'s batch_provider \<Rightarrow> nat \<Rightarrow> unmapped_entry list \<Rightarrow> 's \<Rightarrow> ticker_result list" where
  "batch_results provider batch_size companies s =
     (if batch_size = 0 \<or> companies = [] then []
      else (case provider s (take batch_size companies) of
              (results, s') \<Rightarrow> results @ batch_results provider batch_size (drop batch_size companies) s'))"
  by pat_completeness auto
termination
  by (relation "measure (\<lambda>(provider, batch_size, companies, s). length companies)") auto


text \<open>
  Examples: a taxonomy with the companies X and Q, and a batch provider that finds no
  symbol for any company.
\<close>

definition xq_market :: market_data where
  "xq_market = [\<lparr>sec_name = ''Tech'', sec_subsectors =
                  [\<lparr>sub_name = ''Software'', sub_companies =
                     [\<lparr>co_name = ''X'', co_market_cap = ''2B''\<rparr>,
                      \<lparr>co_name = ''Q'', co_market_cap = ''1B''\<rparr>]\<rparr>]\<rparr>]"

definition no_symbol_provider :: "unit batch_provider" where
  "no_symbol_provider u batch =
     (map (\<lambda>e. \<lparr>t_name = u_name e, t_sym = None, t_notes = Some ''private''\<rparr>) batch, u)"


section \<open>Taxonomy enrichment (process\_market\_data.py)\<close>

text \<open>
  A sector of the input file market\_matrix.json: its subsectors are names. The
  provider \<open>api\<close> stands for the chat-completion call and the parsing of its answer: it
  raises, or it gives the list under \<open>companies\<close>.
\<close>

record matrix_sector =
  ms_name :: string
  ms_subsectors :: "string list"

type_synonym company_api = "string \<Rightarrow> string \<Rightarrow> error + company list"

definition placeholder :: "string \<Rightarrow> company" where
  "placeholder subsector = \<lparr>co_name = ''Error processing '' @ subsector, co_market_cap = ''N/A''\<rparr>"

definition get_companies_for_subsector :: "company_api \<Rightarrow> string \<Rightarrow> string \<Rightarrow> company list" where
  "get_companies_for_subsector api sector subsector =
     (case api sector subsector of
        Inr companies \<Rightarrow> companies
      | Inl e \<Rightarrow> replicate 9 (placeholder subsector))"

text \<open>The list of tasks: one per sector and subsector, in the order of the input.\<close>

definition tasks_of :: "matrix_sector list \<Rightarrow> (string \<times> string) list" where
  "tasks_of market = concat (map (\<lambda>sector. map (\<lambda>subsector. (ms_name sector, subsector))
                                                  (ms_subsectors sector)) market)"

text \<open>
  \<open>asyncio.gather\<close>: every task has a slot at its own position; \<open>order\<close> lists the
  indices of the tasks in the order in which they complete, and a completing task stores
  its result in its slot. \<open>gather\<close> returns when every slot is filled; \<open>None\<close> stands
  for a \<open>gather\<close> that waits for ever.
\<close>

definition complete_task :: "('t \<Rightarrow> 'r) \<Rightarrow> 't list \<Rightarrow> nat \<Rightarrow> 'r option list \<Rightarrow> 'r option list" where
  "complete_task run tasks i slots =
     (if i < length tasks then slots[i := Some (run (tasks ! i))] else slots)"

definition gather :: "('t \<Rightarrow> 'r) \<Rightarrow> 't list \<Rightarrow> nat list \<Rightarrow> 'r list option" where
  "gather run tasks order =
     those (fold (complete_task run tasks) order (replicate (length tasks) None))"

text \<open>
  The loops that put the results back, with the running \<open>result_index\<close>;
  \<open>results[result_index]\<close> raises \<open>IndexError\<close> out of range.
\<close>

fun enrich_subsectors ::
  "string list \<Rightarrow> company list list \<Rightarrow> nat \<Rightarrow> subsector list \<Rightarrow> error + (subsector list \<times> nat)" where
  "enrich_subsectors [] results result_index enriched_subsectors =
     Inr (enriched_subsectors, result_index)"
| "enrich_subsectors (subsector # rest) results result_index enriched_subsectors =
     (if result_index < length results
      then enrich_subsectors rest results (result_index + 1)
             (enriched_subsectors @
                [\<lparr>sub_name = subsector, sub_companies = results ! result_index\<rparr>])
      else Inl IndexError)"

fun update_sectors :: "matrix_sector list \<Rightarrow> company list list \<Rightarrow> nat \<Rightarrow> error + sector list" where
  "update_sectors [] results result_index = Inr []"
| "update_sectors (sector # rest) results result_index =
     (case enrich_subsectors (ms_subsectors sector) results result_index [] of
        Inl e \<Rightarrow> Inl e
      | Inr (enriched_subsectors, result_index') \<Rightarrow>
          (case update_sectors rest results result_index' of
             Inl e \<Rightarrow> Inl e
           | Inr out \<Rightarrow> Inr (\<lparr>sec_name = ms_name sector, sec_subsectors = enriched_subsectors\<rparr> # out)))"

text \<open>\<open>process_all_sectors\<close> from the parsed input to the enriched data that it returns.\<close>

definition process_all_sectors ::
  "company_api \<Rightarrow> nat list \<Rightarrow> matrix_sector list \<Rightarrow> (error + sector list) option" where
  "process_all_sectors api order market =
     (case gather (\<lambda>(sector_name, subsector). get_companies_for_subsector api sector_name subsector)
             (tasks_of market) order of
        None \<Rightarrow> None
      | Some results \<Rightarrow> Some (update_sectors market results 0))"

text \<open>What the specification asks of the output: one entry per pair, in input order.\<close>

definition enriched_entry :: "company_api \<Rightarrow> string \<times> string \<Rightarrow> subsector" where
  "enriched_entry api pair =
     \<lparr>sub_name = snd pair, sub_companies = get_companies_for_subsector api (fst pair) (snd pair)\<rparr>"

definition enriched_sectors :: "company_api \<Rightarrow> matrix_sector list \<Rightarrow> sector list" where
  "enriched_sectors api market =
     map (\<lambda>sector. \<lparr>sec_name = ms_name sector,
                      sec_subsectors = map (\<lambda>subsector. enriched_entry api (ms_name sector, subsector))
                                           (ms_subsectors sector)\<rparr>) market"

text \<open>An example provider: it fails on the subsector B and gives nine companies otherwise.\<close>

definition nine_companies :: "string \<Rightarrow> company list" where
  "nine_companies subsector =
     map (\<lambda>i. \<lparr>co_name = subsector @ '' '' @ str_of_nat i, co_market_cap = ''1B''\<rparr>) [1..<10]"

definition failing_on_B :: company_api where
  "failing_on_B sector subsector =
     (if subsector = ''B'' then Inl ProviderError else Inr (nine_companies subsector))"


section \<open>Reading the latest mapping file (file\_utils.py)\<close>

text \<open>
  \<open>glob.glob("company_ticker_map*.json")\<close> over the listing, and \<open>max\<close> by
  modification time, which keeps the first of several newest files. A file that does
  not parse gives \<open>(None, None)\<close>.
\<close>

definition glob_mapping_files :: "filesystem \<Rightarrow> string list" where
  "glob_mapping_files fs =
     filter (\<lambda>p. prefix ''company_ticker_map'' p \<and> suffix ''.json'' p \<and> 23 \<le> length p \<and>
                 CHR ''/'' \<notin> set p) (map fst fs)"

fun max_by :: "('a \<Rightarrow> real) \<Rightarrow> 'a \<Rightarrow> 'a list \<Rightarrow> 'a" where
  "max_by key best [] = best"
| "max_by key best (x # xs) = max_by key (if key best < key x then x else best) xs"

definition get_latest_mapping_file :: "filesystem \<Rightarrow> (string \<Rightarrow> real) \<Rightarrow> (string \<times> file_content) option" where
  "get_latest_mapping_file fs getmtime =
     (case glob_mapping_files fs of
        [] \<Rightarrow> None
      | f # files \<Rightarrow>
          (let latest_file = max_by getmtime f files
           in case map_of fs latest_file of
                None \<Rightarrow> None
              | Some (RawFile text) \<Rightarrow> None
              | Some contents \<Rightarrow> Some (latest_file, contents)))"


section \<open>Reading the values of a mapping (company\_info.py, utils.py)\<close>

text \<open>The symbols collected by \<open>fetch_all_company_profiles\<close>.\<close>

fun profile_symbols :: "mvalue list \<Rightarrow> string set \<Rightarrow> string set" where
  "profile_symbols [] symbols = symbols"
| "profile_symbols (MObj sy notes # rest) symbols =
     (case sy of
        Some t \<Rightarrow> if t \<noteq> [] then profile_symbols rest (insert t symbols)
                  else profile_symbols rest symbols
      | None \<Rightarrow> profile_symbols rest symbols)"
| "profile_symbols (MStr t # rest) symbols =
     (if t \<noteq> [] then profile_symbols rest (insert t symbols) else profile_symbols rest symbols)"
| "profile_symbols (MNull # rest) symbols = profile_symbols rest symbols"

text \<open>The symbols collected by \<open>count_unique_tickers\<close>, and its result.\<close>

fun ticker_symbols :: "mvalue list \<Rightarrow> string set \<Rightarrow> string set" where
  "ticker_symbols [] symbols = symbols"
| "ticker_symbols (MObj sy notes # rest) symbols =
     (case sy of Some t \<Rightarrow> ticker_symbols rest (insert t symbols)
      | None \<Rightarrow> ticker_symbols rest symbols)"
| "ticker_symbols (MStr t # rest) symbols = ticker_symbols rest (insert t symbols)"
| "ticker_symbols (MNull # rest) symbols = ticker_symbols rest symbols"

definition count_unique_tickers :: "(string \<times> file_content) option \<Rightarrow> int" where
  "count_unique_tickers latest =
     (case latest of
        Some (latest_file, MappingFile ticker_data) \<Rightarrow>
          int (card (ticker_symbols (map snd (mappings ticker_data)) {}))
      | _ \<Rightarrow> 0)"


section \<open>Duplicate tickers (utils.py, clean\_duplicate\_tickers)\<close>

text \<open>
  The first loop builds \<open>ticker_to_companies\<close>. A ticker is used as a dictionary key
  there, so a value that is an object raises \<open>TypeError\<close> (a \<open>dict\<close> is not hashable).
\<close>

fun group_by_ticker ::
  "mvalue dict \<Rightarrow> (string list) dict \<Rightarrow> error + (string list) dict" where
  "group_by_ticker [] ticker_to_companies = Inr ticker_to_companies"
| "group_by_ticker ((company, ticker) # rest) ticker_to_companies =
     (case ticker of
        MNull \<Rightarrow> group_by_ticker rest ticker_to_companies
      | MObj sy notes \<Rightarrow> Inl TypeError
      | MStr t \<Rightarrow>
          (let with_key = (if map_of ticker_to_companies t = None
                           then AList.update t [] ticker_to_companies
                           else ticker_to_companies)
           in case map_of with_key t of
                None \<Rightarrow> Inl KeyError
              | Some companies \<Rightarrow>
                  group_by_ticker rest (AList.update t (companies @ [company]) with_key)))"

definition find_duplicates :: "(string list) dict \<Rightarrow> (string list) dict" where
  "find_duplicates ticker_to_companies =
     filter (\<lambda>(ticker, companies). length companies > 1) ticker_to_companies"

text \<open>The second loop builds the annotated mapping.\<close>

fun annotate :: "(string list) dict \<Rightarrow> mvalue dict \<Rightarrow> mvalue dict \<Rightarrow> error + mvalue dict" where
  "annotate duplicates [] new_mappings = Inr new_mappings"
| "annotate duplicates ((company, ticker) # rest) new_mappings =
     (case ticker of
        MObj sy notes \<Rightarrow> Inl TypeError
      | MNull \<Rightarrow> annotate duplicates rest (AList.update company (MObj None None) new_mappings)
      | MStr t \<Rightarrow>
          (case map_of duplicates t of
             Some companies \<Rightarrow>
               annotate duplicates rest
                 (AList.update company
                    (MObj (Some t)
                       (Some (''Duplicate ticker used by: '' @
                              py_join '', '' (filter (\<lambda>c. c \<noteq> company) companies))))
                    new_mappings)
           | None \<Rightarrow>
               annotate duplicates rest (AList.update company (MObj (Some t) None) new_mappings)))"

datatype cleanup = NoMappingFile | NoDuplicates | Written string filesystem | Raised error | NoReturn

definition clean_duplicate_tickers :: "filesystem \<Rightarrow> (string \<Rightarrow> real) \<Rightarrow> cleanup" where
  "clean_duplicate_tickers fs getmtime =
     (case get_latest_mapping_file fs getmtime of
        None \<Rightarrow> NoMappingFile
      | Some (latest_file, contents) \<Rightarrow>
          (case map_of fs ''enriched_market_matrix.json'' of
             None \<Rightarrow> Raised OSError
           | Some (RawFile text) \<Rightarrow> Raised ValueError
           | Some (MappingFile d) \<Rightarrow> Raised KeyError
           | Some (MatrixFile market) \<Rightarrow>
               (let total_companies = count_companies market
                in case contents of
                     MappingFile ticker_data \<Rightarrow>
                       (case group_by_ticker (mappings ticker_data) [] of
                          Inl e \<Rightarrow> Raised e
                        | Inr ticker_to_companies \<Rightarrow>
                            (let duplicates = find_duplicates ticker_to_companies
                             in if duplicates \<noteq> [] then
                                  (case annotate duplicates (mappings ticker_data) [] of
                                     Inl e \<Rightarrow> Raised e
                                   | Inr new_mappings \<Rightarrow>
                                       (case save_mappings fs new_mappings
                                               [(''source'', JStr ''duplicate_cleanup''),
                                                (''original_file'', JStr latest_file),
                                                (''total_companies'', JInt total_companies),
                                                (''mapped_companies'',
                                                 JInt (int (length ticker_to_companies)))]
                                               ''company_ticker_map.json'' of
                                          None \<Rightarrow> NoReturn
                                        | Some (output_file, fs') \<Rightarrow> Written output_file fs'))
                                else NoDuplicates))
                   | _ \<Rightarrow> Raised KeyError)))"

text \<open>
  What the specification asks: the companies sharing a ticker, and the annotated entry
  of a company.
\<close>

definition companies_sharing :: "mvalue dict \<Rightarrow> string \<Rightarrow> string list" where
  "companies_sharing m t = map fst (filter (\<lambda>(company, ticker). ticker = MStr t) m)"

definition annotated_entry :: "mvalue dict \<Rightarrow> string \<Rightarrow> mvalue \<Rightarrow> mvalue" where
  "annotated_entry m company ticker =
     (case ticker of
        MStr t \<Rightarrow>
          if length (companies_sharing m t) > 1
          then MObj (Some t)
                 (Some (''Duplicate ticker used by: '' @
                        py_join '', '' (filter (\<lambda>c. c \<noteq> company) (companies_sharing m t))))
          else MObj (Some t) None
      | _ \<Rightarrow> MObj None None)"

definition legacy_value :: "mvalue \<Rightarrow> bool" where
  "legacy_value v = (case v of MObj sy notes \<Rightarrow> False | _ \<Rightarrow> True)"


text \<open>
  The example of the specification: A and B share TIK, C has OTH. \<open>abc_files\<close> holds
  the taxonomy and this mapping; \<open>annotated_files\<close> is the listing after the cleanup has
  written its annotated mapping, which is then the newest mapping file.
\<close>

definition abc_mappings :: "mvalue dict" where
  "abc_mappings = [(''A'', MStr ''TIK''), (''B'', MStr ''TIK''), (''C'', MStr ''OTH'')]"

definition abc_files :: filesystem where
  "abc_files = [(''enriched_market_matrix.json'', MatrixFile []),
                (''company_ticker_map.json'', MappingFile \<lparr>metadata = [], mappings = abc_mappings\<rparr>)]"

definition annotated_mappings :: "mvalue dict" where
  "annotated_mappings =
     [(''A'', MObj (Some ''TIK'') (Some ''Duplicate ticker used by: B'')),
      (''B'', MObj (Some ''TIK'') (Some ''Duplicate ticker used by: A'')),
      (''C'', MObj (Some ''OTH'') None)]"

definition annotated_files :: filesystem where
  "annotated_files = abc_files @
     [(''company_ticker_map_2.json'',
       MappingFile \<lparr>metadata = [(''source'', JStr ''duplicate_cleanup''),
                                (''original_file'', JStr ''company_ticker_map.json''),
                                (''total_companies'', JInt 0),
                                (''mapped_companies'', JInt 2)],
                    mappings = annotated_mappings\<rparr>)]"

definition newest_is_2 :: "string \<Rightarrow> real" where
  "newest_is_2 p = (if p = ''company_ticker_map_2.json'' then 2 else 1)"


chapter \<open>Verification\<close>

section \<open>The rate limiter\<close>

text \<open>
  C2. When an acquire finds that less than 60 seconds have passed since the last
  recorded call and the counter has reached the capacity, it returns without error, it
  has blocked for \<open>60 - (now - last_call_time)\<close> seconds, at least 60 seconds have
  passed since the last recorded call when it returns, and the counter is 1. With
  capacity 2 and three acquires at times \<open>t0 \<le> t1 \<le> t2 < t0 + 60\<close> on a fresh
  client, the first two return at once and the third returns at \<open>t1 + 60\<close>, which is
  at least 60 seconds after the first call of the window, with the counter at 1.
\<close>

theorem blocking_acquire:
  "(clock - last_call_time self < 60 \<and> rate_limit self \<le> calls_this_minute self \<longrightarrow>
      (case wait_for_rate_limit self clock of
         Inl e \<Rightarrow> False
       | Inr (self', clock') \<Rightarrow>
           clock' - clock = 60 - (clock - last_call_time self) \<and>
           60 \<le> clock' - last_call_time self \<and>
           calls_this_minute self' = 1)) \<and>
   (t0 \<le> t1 \<and> t1 \<le> t2 \<and> t2 < t0 + 60 \<longrightarrow>
      wait_for_rate_limit (init_client 2) t0
        = Inr (\<lparr>last_call_time = t0, calls_this_minute = 1, rate_limit = 2\<rparr>, t0) \<and>
      acquire_at t1 (wait_for_rate_limit (init_client 2) t0)
        = Inr (\<lparr>last_call_time = t1, calls_this_minute = 2, rate_limit = 2\<rparr>, t1) \<and>
      acquire_at t2 (acquire_at t1 (wait_for_rate_limit (init_client 2) t0))
        = Inr (\<lparr>last_call_time = t2, calls_this_minute = 1, rate_limit = 2\<rparr>, t1 + 60) \<and>
      t0 + 60 \<le> t1 + 60)"
proof (intro conjI impI)
  assume h: "clock - last_call_time self < 60 \<and> rate_limit self \<le> calls_this_minute self"
  then have "\<not> last_call_time self < clock - 60" by simp
  with h show "case wait_for_rate_limit self clock of
         Inl e \<Rightarrow> False
       | Inr (self', clock') \<Rightarrow>
           clock' - clock = 60 - (clock - last_call_time self) \<and>
           60 \<le> clock' - last_call_time self \<and>
           calls_this_minute self' = 1"
    by (simp add: wait_for_rate_limit_def sleep_def)
next
  assume h: "t0 \<le> t1 \<and> t1 \<le> t2 \<and> t2 < t0 + 60"
  show first: "wait_for_rate_limit (init_client 2) t0
        = Inr (\<lparr>last_call_time = t0, calls_this_minute = 1, rate_limit = 2\<rparr>, t0)"
    by (simp add: wait_for_rate_limit_def init_client_def)
  from h show second: "acquire_at t1 (wait_for_rate_limit (init_client 2) t0)
        = Inr (\<lparr>last_call_time = t1, calls_this_minute = 2, rate_limit = 2\<rparr>, t1)"
    unfolding first acquire_at_def by (simp add: wait_for_rate_limit_def max_def)
  from h show "acquire_at t2 (acquire_at t1 (wait_for_rate_limit (init_client 2) t0))
        = Inr (\<lparr>last_call_time = t2, calls_this_minute = 1, rate_limit = 2\<rparr>, t1 + 60)"
    unfolding second acquire_at_def [of t2] by (simp add: wait_for_rate_limit_def sleep_def max_def)
  from h show "t0 + 60 \<le> t1 + 60" by simp
qed

theorem blocking_acquire_witness:
  "(case wait_for_rate_limit \<lparr>last_call_time = 1010, calls_this_minute = 2, rate_limit = 2\<rparr> 1030 of
      Inl e \<Rightarrow> False
    | Inr (self', clock') \<Rightarrow> clock' - 1030 = 40 \<and> calls_this_minute self' = 1) \<and>
   acquire_at 1030 (acquire_at 1010 (wait_for_rate_limit (init_client 2) 1000))
     = Inr (\<lparr>last_call_time = 1030, calls_this_minute = 1, rate_limit = 2\<rparr>, 1070)"
proof -
  note th = blocking_acquire [of 1030
      "\<lparr>last_call_time = 1010, calls_this_minute = 2, rate_limit = 2\<rparr>" 1000 1010 1030]
  have a: "1030 - last_call_time \<lparr>last_call_time = 1010, calls_this_minute = 2, rate_limit = 2\<rparr> < 60
      \<and> rate_limit \<lparr>last_call_time = 1010, calls_this_minute = 2, rate_limit = 2\<rparr>
        \<le> calls_this_minute \<lparr>last_call_time = 1010, calls_this_minute = 2, rate_limit = 2\<rparr>"
    by simp
  have b: "(1000::real) \<le> 1010 \<and> (1010::real) \<le> 1030 \<and> (1030::real) < 1000 + 60"
    by simp
  from th [THEN conjunct1, THEN mp, OF a]
  have c: "case wait_for_rate_limit \<lparr>last_call_time = 1010, calls_this_minute = 2, rate_limit = 2\<rparr> 1030 of
      Inl e \<Rightarrow> False
    | Inr (self', clock') \<Rightarrow> clock' - 1030 = 40 \<and> calls_this_minute self' = 1"
    by (simp split: sum.splits prod.splits)
  from th [THEN conjunct2, THEN mp, OF b]
  have "acquire_at 1030 (acquire_at 1010 (wait_for_rate_limit (init_client 2) 1000))
     = Inr (\<lparr>last_call_time = 1030, calls_this_minute = 1, rate_limit = 2\<rparr>, 1010 + 60)"
    by (elim conjE)
  then have d: "acquire_at 1030 (acquire_at 1010 (wait_for_rate_limit (init_client 2) 1000))
     = Inr (\<lparr>last_call_time = 1030, calls_this_minute = 1, rate_limit = 2\<rparr>, 1070)"
    by simp
  from c d show ?thesis by (rule conjI)
qed


section \<open>Symbol lookup: the loops and the tiers\<close>

text \<open>
  Each loop of \<open>lookup_symbol\<close> returns the symbol of the first result of its tier. The
  division in the second loop is never by zero: a search term without words is empty
  (it is stripped, or it is an alias value), the empty string occurs in every description,
  and then the first loop has already returned every common stock without a dot.
\<close>

lemma str_in_Nil: "str_in [] s"
  by (cases s) simp_all

lemma str_in_single: "str_in [c] s \<longleftrightarrow> c \<in> set s"
  by (induction s) auto

lemma exact_match_loop_tier1:
  "exact_match_loop q cn rs = first_symbol (tier1 py_lower q (py_lower cn)) rs"
  by (induction rs) (auto simp: first_symbol_def tier1_def str_in_single)

lemma partial_match_loop_tier2:
  "py_split q \<noteq> [] \<Longrightarrow> partial_match_loop q rs = Inr (first_symbol (tier2 py_lower q) rs)"
  by (induction rs)
     (auto simp: first_symbol_def tier2_def overlap_ratio_def str_in_single Let_def Int_commute)

lemma partial_match_loop_empty_query:
  "exact_match_loop [] cn rs = None \<Longrightarrow>
     partial_match_loop [] rs = Inr None \<and> first_symbol (tier2 view []) rs = None"
  by (induction rs)
     (auto simp: first_symbol_def tier2_def str_in_single str_in_Nil split: if_splits)

lemma first_symbol_Nil: "first_symbol P [] = None"
  by (simp add: first_symbol_def)

lemma any_common_stock_loop_tier3: "any_common_stock_loop rs = first_symbol tier3 rs"
  by (induction rs) (simp_all add: first_symbol_def tier3_def)

lemma split_ws_Nil: "split_ws w s = [] \<Longrightarrow> w = [] \<and> (\<forall>c\<in>set s. py_isspace c)"
  by (induction s arbitrary: w) (auto split: if_splits)

lemma py_strip_no_words: "py_split (py_strip y) = [] \<Longrightarrow> py_strip y = []"
proof (rule ccontr)
  assume e: "py_split (py_strip y) = []" and ne: "py_strip y \<noteq> []"
  let ?z = "dropWhile py_isspace (rev (dropWhile py_isspace y))"
  from ne have z: "?z \<noteq> []" by (simp add: py_strip_def)
  then have "\<not> py_isspace (hd ?z)" by (rule hd_dropWhile)
  moreover from z have "hd ?z \<in> set (py_strip y)" by (simp add: py_strip_def)
  ultimately show False using split_ws_Nil [of "[]" "py_strip y"] e by (auto simp: py_split_def)
qed

lemma check_aliases_cases:
  "check_aliases COMPANY_ALIASES x \<in> {x, ''google'', ''facebook'', ''amazon.com'', ''brk''}"
  by (simp add: COMPANY_ALIASES_def)

lemma search_term_no_words:
  assumes "py_split (search_term COMPANY_ALIASES cn) = []"
  shows "search_term COMPANY_ALIASES cn = []"
proof -
  have v: "py_split ''google'' \<noteq> []" "py_split ''facebook'' \<noteq> []"
      "py_split ''amazon.com'' \<noteq> []" "py_split ''brk'' \<noteq> []"
    by code_simp+
  from check_aliases_cases [of "normalize_name cn"] assms v
  have "search_term COMPANY_ALIASES cn = normalize_name cn"
    unfolding search_term_def by auto
  with assms show ?thesis using py_strip_no_words by (simp add: normalize_name_def)
qed

lemma wait_for_rate_limit_returns: "\<exists>self' clock'. wait_for_rate_limit self clock = Inr (self', clock')"
  by (simp add: wait_for_rate_limit_def sleep_def Let_def)

lemma lookup_symbol_body_tiers:
  "lookup_symbol_body COMPANY_ALIASES (\<lambda>q. Inr results) company_name
     = tiered_symbol py_lower (search_term COMPANY_ALIASES company_name) (py_lower company_name) results"
proof (cases "py_split (search_term COMPANY_ALIASES company_name) = []")
  case False
  then show ?thesis
    by (cases "results = []")
       (auto simp: lookup_symbol_body_def tiered_symbol_def exact_match_loop_tier1
          partial_match_loop_tier2 any_common_stock_loop_tier3 first_symbol_Nil
          split: option.splits)
next
  case True
  then have q: "search_term COMPANY_ALIASES company_name = []" by (rule search_term_no_words)
  show ?thesis
  proof (cases "exact_match_loop [] company_name results")
    case None
    from partial_match_loop_empty_query [OF None, of py_lower] None show ?thesis
      by (cases "results = []")
         (auto simp: lookup_symbol_body_def tiered_symbol_def q any_common_stock_loop_tier3
            first_symbol_Nil exact_match_loop_tier1 [symmetric])
  next
    case (Some s)
    then show ?thesis
      by (cases "results = []")
         (auto simp: lookup_symbol_body_def tiered_symbol_def q
            exact_match_loop_tier1 [symmetric])
  qed
qed

text \<open>
  C1, as stated: Tier 1 asks that the description contains the transformed name or the
  lower-case original name, and Tier 2 counts the words of the description. The code
  reads the lower-case form of the description in both tiers, so on a description in
  capitals it selects a result that the tiers read on the description itself pass over:
  for "Apple Inc." it returns AAPL, described as "APPLE INC", where the stated tiers
  give APLE.
\<close>

theorem lookup_symbol_description_case:
  "map_sum id fst
     (lookup_symbol COMPANY_ALIASES
        (\<lambda>q. Inr [\<lparr>r_type = ''Common Stock'', r_symbol = ''AAPL'', r_description = ''APPLE INC''\<rparr>,
                   \<lparr>r_type = ''Common Stock'', r_symbol = ''APLE'',
                    r_description = ''apple hospitality reit inc''\<rparr>])
        (init_client 45) 1000 ''Apple Inc.'') = Inr (Some ''AAPL'') \<and>
   tiered_symbol (\<lambda>d. d) (search_term COMPANY_ALIASES ''Apple Inc.'') (py_lower ''Apple Inc.'')
     [\<lparr>r_type = ''Common Stock'', r_symbol = ''AAPL'', r_description = ''APPLE INC''\<rparr>,
      \<lparr>r_type = ''Common Stock'', r_symbol = ''APLE'',
       r_description = ''apple hospitality reit inc''\<rparr>] = Some ''APLE''"
proof -
  have "lookup_symbol_body COMPANY_ALIASES
        (\<lambda>q. Inr [\<lparr>r_type = ''Common Stock'', r_symbol = ''AAPL'', r_description = ''APPLE INC''\<rparr>,
                   \<lparr>r_type = ''Common Stock'', r_symbol = ''APLE'',
                    r_description = ''apple hospitality reit inc''\<rparr>])
        ''Apple Inc.'' = Some ''AAPL''"
    by code_simp
  then have a: "map_sum id fst
     (lookup_symbol COMPANY_ALIASES
        (\<lambda>q. Inr [\<lparr>r_type = ''Common Stock'', r_symbol = ''AAPL'', r_description = ''APPLE INC''\<rparr>,
                   \<lparr>r_type = ''Common Stock'', r_symbol = ''APLE'',
                    r_description = ''apple hospitality reit inc''\<rparr>])
        (init_client 45) 1000 ''Apple Inc.'') = Inr (Some ''AAPL'')"
    using wait_for_rate_limit_returns [of "init_client 45" 1000]
    by (auto simp: lookup_symbol_def)
  have b: "tiered_symbol (\<lambda>d. d) (search_term COMPANY_ALIASES ''Apple Inc.'') (py_lower ''Apple Inc.'')
     [\<lparr>r_type = ''Common Stock'', r_symbol = ''AAPL'', r_description = ''APPLE INC''\<rparr>,
      \<lparr>r_type = ''Common Stock'', r_symbol = ''APLE'',
       r_description = ''apple hospitality reit inc''\<rparr>] = Some ''APLE''"
    by code_simp
  from a b show ?thesis by (rule conjI)
qed

text \<open>
  C1, amended: for every company name and every result list that the provider returns,
  \<open>lookup_symbol\<close> returns, and its value is the symbol of the first result of Tier 1
  (common stock, no dot in the symbol, the lower-case description contains the search term
  or the lower-case company name); failing that of Tier 2 (common stock, no dot, more than
  half of the words of the search term are among the words of the lower-case
  description); failing that of the first common stock; and \<open>None\<close> when there is none.
  For "abc corp" over ABC.L and ABC, both described as "abc corp", it returns ABC.
\<close>

theorem lookup_symbol_tiers:
  "(\<exists>self' clock'.
      lookup_symbol COMPANY_ALIASES (\<lambda>q. Inr results) self clock company_name
        = Inr (tiered_symbol py_lower (search_term COMPANY_ALIASES company_name)
                 (py_lower company_name) results, self', clock')) \<and>
   (\<exists>self' clock'.
      lookup_symbol COMPANY_ALIASES
        (\<lambda>q. Inr [\<lparr>r_type = ''Common Stock'', r_symbol = ''ABC.L'', r_description = ''abc corp''\<rparr>,
                   \<lparr>r_type = ''Common Stock'', r_symbol = ''ABC'', r_description = ''abc corp''\<rparr>])
        self clock ''abc corp'' = Inr (Some ''ABC'', self', clock'))"
proof -
  obtain self' clock' where w: "wait_for_rate_limit self clock = Inr (self', clock')"
    using wait_for_rate_limit_returns by blast
  have abc: "lookup_symbol_body COMPANY_ALIASES
        (\<lambda>q. Inr [\<lparr>r_type = ''Common Stock'', r_symbol = ''ABC.L'', r_description = ''abc corp''\<rparr>,
                   \<lparr>r_type = ''Common Stock'', r_symbol = ''ABC'', r_description = ''abc corp''\<rparr>])
        ''abc corp'' = Some ''ABC''"
    by code_simp
  have "lookup_symbol COMPANY_ALIASES (\<lambda>q. Inr results) self clock company_name
        = Inr (tiered_symbol py_lower (search_term COMPANY_ALIASES company_name)
                 (py_lower company_name) results, self', clock')"
    by (simp add: lookup_symbol_def w lookup_symbol_body_tiers)
  moreover have "lookup_symbol COMPANY_ALIASES
        (\<lambda>q. Inr [\<lparr>r_type = ''Common Stock'', r_symbol = ''ABC.L'', r_description = ''abc corp''\<rparr>,
                   \<lparr>r_type = ''Common Stock'', r_symbol = ''ABC'', r_description = ''abc corp''\<rparr>])
        self clock ''abc corp'' = Inr (Some ''ABC'', self', clock')"
    by (simp only: lookup_symbol_def w abc sum.case prod.case)
  ultimately show ?thesis by blast
qed


section \<open>Numbered file names\<close>

text \<open>Decimal rendering is injective, so the candidate names are pairwise distinct.\<close>

lemma digit_char_inj: "a < 10 \<Longrightarrow> b < 10 \<Longrightarrow> digit_char a = digit_char b \<Longrightarrow> a = b"
  unfolding digit_char_def by (simp add: char_of_eq_iff take_bit_eq_mod)

lemma str_of_nat_nonempty: "str_of_nat n \<noteq> []"
  by (subst str_of_nat.simps) simp

lemma str_of_nat_inj: "str_of_nat n = str_of_nat m \<Longrightarrow> n = m"
proof (induction n arbitrary: m rule: str_of_nat.induct)
  case (1 n)
  note eq = \<open>str_of_nat n = str_of_nat m\<close>
  show ?case
  proof (cases "n < 10")
    case small_n: True
    show ?thesis
    proof (cases "m < 10")
      case True
      with small_n eq show ?thesis
        by (simp add: str_of_nat.simps [of n] str_of_nat.simps [of m] digit_char_inj)
    next
      case False
      with small_n eq have "[digit_char n] = str_of_nat (m div 10) @ [digit_char (m mod 10)]"
        by (simp add: str_of_nat.simps [of n] str_of_nat.simps [of m])
      then show ?thesis using str_of_nat_nonempty [of "m div 10"] by simp
    qed
  next
    case big_n: False
    show ?thesis
    proof (cases "m < 10")
      case True
      with big_n eq have "str_of_nat (n div 10) @ [digit_char (n mod 10)] = [digit_char m]"
        by (simp add: str_of_nat.simps [of n] str_of_nat.simps [of m])
      then show ?thesis using str_of_nat_nonempty [of "n div 10"] by simp
    next
      case False
      with big_n eq have "str_of_nat (n div 10) @ [digit_char (n mod 10)]
          = str_of_nat (m div 10) @ [digit_char (m mod 10)]"
        by (simp add: str_of_nat.simps [of n] str_of_nat.simps [of m])
      then have a: "str_of_nat (n div 10) = str_of_nat (m div 10)"
        and b: "digit_char (n mod 10) = digit_char (m mod 10)" by simp_all
      from "1.IH" [OF big_n a] have "n div 10 = m div 10" .
      moreover from b have "n mod 10 = m mod 10" by (simp add: digit_char_inj)
      ultimately show ?thesis by (metis div_mult_mod_eq)
    qed
  qed
qed

lemma numbered_inj: "2 \<le> j \<Longrightarrow> 2 \<le> k \<Longrightarrow> numbered base j = numbered base k \<Longrightarrow> j = k"
  by (auto simp: numbered_def dest: str_of_nat_inj)

lemma next_numbered_least:
  "counter \<le> k \<Longrightarrow> \<not> path_exists fs (name @ ''_'' @ str_of_nat k @ ext) \<Longrightarrow>
   (\<And>j. counter \<le> j \<Longrightarrow> j < k \<Longrightarrow> path_exists fs (name @ ''_'' @ str_of_nat j @ ext)) \<Longrightarrow>
   next_numbered fs name ext counter = Some (name @ ''_'' @ str_of_nat k @ ext)"
proof (induction "k - counter" arbitrary: counter)
  case 0
  then have "counter = k" by simp
  with 0 show ?case by (subst next_numbered.simps) simp
next
  case (Suc d)
  then have lt: "counter < k" by simp
  with Suc.prems have ex: "path_exists fs (name @ ''_'' @ str_of_nat counter @ ext)" by simp
  have "next_numbered fs name ext (counter + 1) = Some (name @ ''_'' @ str_of_nat k @ ext)"
    using Suc lt by (intro Suc.hyps) auto
  with ex show ?case by (subst next_numbered.simps) simp
qed

lemma free_number_exists: "\<exists>k\<ge>2. \<not> path_exists fs (numbered base k)"
proof (rule ccontr)
  assume "\<not> ?thesis"
  then have all: "\<And>k. 2 \<le> k \<Longrightarrow> numbered base k \<in> fst ` set fs"
    by (auto simp: path_exists_def map_of_eq_None_iff)
  have "inj_on (numbered base) {2..}"
    by (rule inj_onI) (auto dest: numbered_inj)
  moreover have "numbered base ` {2..} \<subseteq> fst ` set fs" using all by auto
  ultimately have "finite {2::nat..}" by (metis finite_imageI finite_set finite_subset finite_imageD)
  then show False by (simp add: infinite_Ici)
qed

lemma next_filename_first_free:
  "\<exists>k\<ge>1. get_next_available_filename fs base = Some (numbered base k) \<and>
      \<not> path_exists fs (numbered base k) \<and>
      (\<forall>j. 1 \<le> j \<and> j < k \<longrightarrow> path_exists fs (numbered base j))"
proof (cases "path_exists fs base")
  case False
  then have "get_next_available_filename fs base = Some (numbered base 1) \<and>
      \<not> path_exists fs (numbered base 1) \<and>
      (\<forall>j. 1 \<le> j \<and> j < 1 \<longrightarrow> path_exists fs (numbered base j))"
    by (simp add: get_next_available_filename_def numbered_def)
  then show ?thesis by blast
next
  case True
  define k where "k = (LEAST k. 2 \<le> k \<and> \<not> path_exists fs (numbered base k))"
  from free_number_exists [of fs base]
  obtain k0 where "2 \<le> k0 \<and> \<not> path_exists fs (numbered base k0)" by blast
  then have k: "2 \<le> k \<and> \<not> path_exists fs (numbered base k)"
    unfolding k_def by (rule LeastI)
  have below: "path_exists fs (numbered base j)" if "2 \<le> j" "j < k" for j
    using not_less_Least [of j "\<lambda>k. 2 \<le> k \<and> \<not> path_exists fs (numbered base k)"] that
    unfolding k_def by blast
  obtain name ext where se: "splitext base = (name, ext)" by (cases "splitext base")
  have num: "numbered base j = name @ ''_'' @ str_of_nat j @ ext" if "2 \<le> j" for j
    using that se by (simp add: numbered_def)
  have "next_numbered fs name ext 2 = Some (name @ ''_'' @ str_of_nat k @ ext)"
  proof (rule next_numbered_least)
    show "2 \<le> k" using k by simp
    show "\<not> path_exists fs (name @ ''_'' @ str_of_nat k @ ext)" using k num [of k] by auto
    show "path_exists fs (name @ ''_'' @ str_of_nat j @ ext)" if "2 \<le> j" "j < k" for j
      using below [OF that] num [OF that(1)] by auto
  qed
  with True se k num have "get_next_available_filename fs base = Some (numbered base k)"
    by (simp add: get_next_available_filename_def)
  moreover have "path_exists fs (numbered base j)" if "1 \<le> j" "j < k" for j
  proof (cases "j = 1")
    case True
    with \<open>path_exists fs base\<close> show ?thesis by (simp add: numbered_def)
  next
    case False
    with that have "2 \<le> j" by simp
    then show ?thesis using below that by simp
  qed
  ultimately show ?thesis using k by (intro exI [of _ k]) auto
qed

lemma write_file_keeps_others:
  "\<not> path_exists fs out \<Longrightarrow> path_exists fs p \<Longrightarrow> map_of (write_file fs out f) p = map_of fs p"
  by (auto simp: write_file_def path_exists_def update_conv')

text \<open>
  C5. For every base file name and every finite set of existing files, the name search
  returns, and it returns the first name of \<open>base\<close>, \<open>base_2\<close>, \<open>base_3\<close>, ... that does
  not exist. Both \<open>save_mappings\<close> write to that name only, so every file that existed
  keeps its content. When only company\_ticker\_map.json exists the write goes to
  company\_ticker\_map\_2.json, and the next write goes to company\_ticker\_map\_3.json.
\<close>

theorem save_mappings_first_free_name:
  "(\<exists>k\<ge>1. get_next_available_filename fs base = Some (numbered base k) \<and>
      \<not> path_exists fs (numbered base k) \<and>
      (\<forall>j. 1 \<le> j \<and> j < k \<longrightarrow> path_exists fs (numbered base j))) \<and>
   (\<exists>out fs'. save_mappings fs m md base = Some (out, fs') \<and>
      get_next_available_filename fs base = Some out \<and> \<not> path_exists fs out \<and>
      path_exists fs' out \<and> (\<forall>p. path_exists fs p \<longrightarrow> map_of fs' p = map_of fs p)) \<and>
   (\<exists>out fs'. yf_save_mappings fs m md base = Some (out, fs') \<and>
      get_next_available_filename fs base = Some out \<and> \<not> path_exists fs out \<and>
      path_exists fs' out \<and> (\<forall>p. path_exists fs p \<longrightarrow> map_of fs' p = map_of fs p)) \<and>
   map_option fst (save_mappings [(''company_ticker_map.json'', f)] m md ''company_ticker_map.json'')
     = Some ''company_ticker_map_2.json'' \<and>
   (case save_mappings [(''company_ticker_map.json'', f)] m md ''company_ticker_map.json'' of
      None \<Rightarrow> False
    | Some (out, fs') \<Rightarrow>
        map_option fst (save_mappings fs' m md ''company_ticker_map.json'')
          = Some ''company_ticker_map_3.json'')"
proof -
  from next_filename_first_free [of fs base]
  obtain k where k: "1 \<le> k" "get_next_available_filename fs base = Some (numbered base k)"
      "\<not> path_exists fs (numbered base k)"
      "\<forall>j. 1 \<le> j \<and> j < k \<longrightarrow> path_exists fs (numbered base j)"
    by blast
  have written: "path_exists (write_file fs out g) out" for out g
    by (simp add: write_file_def path_exists_def update_conv')
  have a: "\<exists>out fs'. save_mappings fs m md base = Some (out, fs') \<and>
      get_next_available_filename fs base = Some out \<and> \<not> path_exists fs out \<and>
      path_exists fs' out \<and> (\<forall>p. path_exists fs p \<longrightarrow> map_of fs' p = map_of fs p)"
    using k(2,3) written by (simp add: save_mappings_def write_file_keeps_others)
  have b: "\<exists>out fs'. yf_save_mappings fs m md base = Some (out, fs') \<and>
      get_next_available_filename fs base = Some out \<and> \<not> path_exists fs out \<and>
      path_exists fs' out \<and> (\<forall>p. path_exists fs p \<longrightarrow> map_of fs' p = map_of fs p)"
    using k(2,3) written by (simp add: yf_save_mappings_def write_file_keeps_others)
  have se: "splitext ''company_ticker_map.json'' = (''company_ticker_map'', ''.json'')"
    by code_simp
  have s2: "str_of_nat 2 = ''2''" and s3: "str_of_nat 3 = ''3''"
    by code_simp+
  have n2: "get_next_available_filename [(''company_ticker_map.json'', f)] ''company_ticker_map.json''
      = Some ''company_ticker_map_2.json''"
    unfolding get_next_available_filename_def se
    by (subst next_numbered.simps) (simp add: path_exists_def s2)
  have n3: "get_next_available_filename
      [(''company_ticker_map.json'', f), (''company_ticker_map_2.json'', g)] ''company_ticker_map.json''
      = Some ''company_ticker_map_3.json''" for g
    unfolding get_next_available_filename_def se
    by (subst next_numbered.simps, simp add: path_exists_def s2,
        subst next_numbered.simps, simp add: path_exists_def s3)
  have c: "save_mappings [(''company_ticker_map.json'', f)] m md ''company_ticker_map.json''
      = Some (''company_ticker_map_2.json'',
          [(''company_ticker_map.json'', f),
           (''company_ticker_map_2.json'',
            MappingFile \<lparr>metadata = AList.update ''total_companies'' (JInt 0) md, mappings = m\<rparr>)])"
    by (simp add: save_mappings_def n2 write_file_def get_total_companies_def)
  have d: "map_option fst (save_mappings
          [(''company_ticker_map.json'', f),
           (''company_ticker_map_2.json'',
            MappingFile \<lparr>metadata = AList.update ''total_companies'' (JInt 0) md, mappings = m\<rparr>)]
          m md ''company_ticker_map.json'') = Some ''company_ticker_map_3.json''"
    by (simp add: save_mappings_def n3)
  from k have e: "\<exists>k\<ge>1. get_next_available_filename fs base = Some (numbered base k) \<and>
      \<not> path_exists fs (numbered base k) \<and>
      (\<forall>j. 1 \<le> j \<and> j < k \<longrightarrow> path_exists fs (numbered base j))"
    by blast
  from c d have g: "case save_mappings [(''company_ticker_map.json'', f)] m md ''company_ticker_map.json'' of
      None \<Rightarrow> False
    | Some (out, fs') \<Rightarrow>
        map_option fst (save_mappings fs' m md ''company_ticker_map.json'')
          = Some ''company_ticker_map_3.json''"
    by simp
  from c have h: "map_option fst (save_mappings [(''company_ticker_map.json'', f)] m md ''company_ticker_map.json'')
     = Some ''company_ticker_map_2.json''"
    by simp
  from e a b h g show ?thesis by (intro conjI)
qed

theorem save_mappings_first_free_name_witness:
  "(\<exists>k\<ge>1. get_next_available_filename
        [(''company_ticker_map.json'', RawFile ''old''), (''company_ticker_map_2.json'', RawFile ''older'')]
        ''company_ticker_map.json'' = Some (numbered ''company_ticker_map.json'' k) \<and>
      \<not> path_exists
        [(''company_ticker_map.json'', RawFile ''old''), (''company_ticker_map_2.json'', RawFile ''older'')]
        (numbered ''company_ticker_map.json'' k)) \<and>
   path_exists
     [(''company_ticker_map.json'', RawFile ''old''), (''company_ticker_map_2.json'', RawFile ''older'')]
     (numbered ''company_ticker_map.json'' 1) \<and>
   path_exists
     [(''company_ticker_map.json'', RawFile ''old''), (''company_ticker_map_2.json'', RawFile ''older'')]
     (numbered ''company_ticker_map.json'' 2)"
proof -
  note th = save_mappings_first_free_name [of
      "[(''company_ticker_map.json'', RawFile ''old''), (''company_ticker_map_2.json'', RawFile ''older'')]"
      "''company_ticker_map.json''" "[]" "[]" "RawFile ''old''"]
  have "path_exists
     [(''company_ticker_map.json'', RawFile ''old''), (''company_ticker_map_2.json'', RawFile ''older'')]
     (numbered ''company_ticker_map.json'' 1)"
    by code_simp
  moreover have "path_exists
     [(''company_ticker_map.json'', RawFile ''old''), (''company_ticker_map_2.json'', RawFile ''older'')]
     (numbered ''company_ticker_map.json'' 2)"
    by code_simp
  moreover from th [THEN conjunct1]
  have "\<exists>k\<ge>1. get_next_available_filename
        [(''company_ticker_map.json'', RawFile ''old''), (''company_ticker_map_2.json'', RawFile ''older'')]
        ''company_ticker_map.json'' = Some (numbered ''company_ticker_map.json'' k) \<and>
      \<not> path_exists
        [(''company_ticker_map.json'', RawFile ''old''), (''company_ticker_map_2.json'', RawFile ''older'')]
        (numbered ''company_ticker_map.json'' k)"
    by blast
  ultimately show ?thesis by blast
qed


section \<open>The total written by the two save\_mappings\<close>

lemma save_mappings_sets_total:
  "save_mappings fs m md base = Some (out, fs') \<Longrightarrow>
   \<exists>doc. map_of fs' out = Some (MappingFile doc) \<and>
     map_of (metadata doc) ''total_companies'' = Some (JInt (get_total_companies fs))"
  by (auto simp: save_mappings_def write_file_def update_conv' split: option.splits)

text \<open>
  C9. The claim: both \<open>save_mappings\<close> set \<open>total_companies\<close> to the count of the
  taxonomy file, whatever the caller passed. \<open>save_mappings\<close> of file\_utils.py does
  (lemma \<open>save_mappings_sets_total\<close>). The copy in yf\_lookup.py does not: with a
  taxonomy of 2 companies and a caller's total of 7 it writes 7, where the one of
  file\_utils.py writes 2.
\<close>

theorem yf_save_mappings_keeps_caller_total:
  "get_total_companies
     [(''enriched_market_matrix.json'',
       MatrixFile [\<lparr>sec_name = ''Tech'', sec_subsectors =
         [\<lparr>sub_name = ''Software'', sub_companies =
           [\<lparr>co_name = ''A'', co_market_cap = ''2B''\<rparr>,
            \<lparr>co_name = ''B'', co_market_cap = ''1B''\<rparr>]\<rparr>]\<rparr>])] = 2 \<and>
   yf_save_mappings
     [(''enriched_market_matrix.json'',
       MatrixFile [\<lparr>sec_name = ''Tech'', sec_subsectors =
         [\<lparr>sub_name = ''Software'', sub_companies =
           [\<lparr>co_name = ''A'', co_market_cap = ''2B''\<rparr>,
            \<lparr>co_name = ''B'', co_market_cap = ''1B''\<rparr>]\<rparr>]\<rparr>])]
     [(''A'', MStr ''AAA'')] [(''total_companies'', JInt 7), (''mapped_companies'', JInt 1)]
     ''company_ticker_map.json''
   = Some (''company_ticker_map.json'',
       [(''enriched_market_matrix.json'',
         MatrixFile [\<lparr>sec_name = ''Tech'', sec_subsectors =
           [\<lparr>sub_name = ''Software'', sub_companies =
             [\<lparr>co_name = ''A'', co_market_cap = ''2B''\<rparr>,
              \<lparr>co_name = ''B'', co_market_cap = ''1B''\<rparr>]\<rparr>]\<rparr>]),
        (''company_ticker_map.json'',
         MappingFile \<lparr>metadata = [(''total_companies'', JInt 7), (''mapped_companies'', JInt 1)],
                      mappings = [(''A'', MStr ''AAA'')]\<rparr>)]) \<and>
   save_mappings
     [(''enriched_market_matrix.json'',
       MatrixFile [\<lparr>sec_name = ''Tech'', sec_subsectors =
         [\<lparr>sub_name = ''Software'', sub_companies =
           [\<lparr>co_name = ''A'', co_market_cap = ''2B''\<rparr>,
            \<lparr>co_name = ''B'', co_market_cap = ''1B''\<rparr>]\<rparr>]\<rparr>])]
     [(''A'', MStr ''AAA'')] [(''total_companies'', JInt 7), (''mapped_companies'', JInt 1)]
     ''company_ticker_map.json''
   = Some (''company_ticker_map.json'',
       [(''enriched_market_matrix.json'',
         MatrixFile [\<lparr>sec_name = ''Tech'', sec_subsectors =
           [\<lparr>sub_name = ''Software'', sub_companies =
             [\<lparr>co_name = ''A'', co_market_cap = ''2B''\<rparr>,
              \<lparr>co_name = ''B'', co_market_cap = ''1B''\<rparr>]\<rparr>]\<rparr>]),
        (''company_ticker_map.json'',
         MappingFile \<lparr>metadata = [(''total_companies'', JInt 2), (''mapped_companies'', JInt 1)],
                      mappings = [(''A'', MStr ''AAA'')]\<rparr>)])"
  by (simp add: get_total_companies_def count_companies_def yf_save_mappings_def save_mappings_def
      get_next_available_filename_def path_exists_def write_file_def)


section \<open>Alias substitution on Alphabet Inc.\<close>

text \<open>
  C3. The claim: for the company name "Alphabet Inc." and an alias table with
  "alphabet inc" \<mapsto> "google", the term passed to the provider is "google". On the
  code the suffix loop removes " inc." first, the normalised name is "alphabet", the key
  "alphabet inc" does not occur in it, and the term passed to the provider is "alphabet".
\<close>

theorem alphabet_inc_search_term:
  "normalize_name ''Alphabet Inc.'' = ''alphabet'' \<and>
   \<not> str_in ''alphabet inc'' (normalize_name ''Alphabet Inc.'') \<and>
   search_term COMPANY_ALIASES ''Alphabet Inc.'' = ''alphabet'' \<and>
   search_term [(''alphabet inc'', ''google'')] ''Alphabet Inc.'' = ''alphabet'' \<and>
   search_term COMPANY_ALIASES ''Alphabet Inc.'' \<noteq> ''google''"
  by code_simp


section \<open>The unmapped-batch run\<close>

lemma set_update_subset: "set (AList.update k v al) \<subseteq> insert (k, v) (set al)"
  by (induction al) auto

lemma keys_dict_merge: "fst ` set (dict_merge a b) = fst ` set a \<union> fst ` set b"
  unfolding dict_merge_def
proof (induction b arbitrary: a)
  case Nil
  show ?case by simp
next
  case (Cons p b)
  obtain k v where p: "p = (k, v)" by (cases p)
  have "fst ` set (fold (\<lambda>(k, v) d. AList.update k v d) b (AList.update k v a))
      = fst ` set (AList.update k v a) \<union> fst ` set b"
    by (rule Cons.IH)
  then show ?case by (simp add: p dom_update Un_ac)
qed

lemma map_of_dict_merge_None:
  "map_of (dict_merge a b) n = None \<longleftrightarrow> map_of a n = None \<and> map_of b n = None"
  by (simp add: map_of_eq_None_iff keys_dict_merge)

lemma unmapped_loop_calls:
  "calls_of (unmapped_loop lookup ex names (nm, k, calls, s))
     = calls @ filter (\<lambda>n. map_of ex n = None) (map u_name names)"
  by (induction names arbitrary: nm k calls s)
     (auto simp: calls_of_def Let_def split: prod.splits)

lemma unmapped_loop_keys:
  assumes "\<And>s n. fst (lookup s n) = answer n"
  shows "fst ` set (new_mappings_of (unmapped_loop lookup ex names (nm, k, calls, s)))
     = fst ` set nm \<union> {n \<in> u_name ` set names. map_of ex n = None \<and> truthy (answer n)}"
proof (induction names arbitrary: nm k calls s)
  case Nil
  show ?case by (simp add: new_mappings_of_def)
next
  case (Cons c names)
  obtain t s' where l: "lookup s (u_name c) = (t, s')" by (cases "lookup s (u_name c)")
  with assms [of s "u_name c"] have t: "t = answer (u_name c)" by simp
  show ?case
    using Cons.IH l t by (auto simp: Let_def dom_update)
qed

lemma unmapped_loop_nothing_new:
  assumes "\<And>s n. fst (lookup s n) = answer n"
    and "\<forall>c\<in>set names. map_of prior (u_name c) \<noteq> None \<or> \<not> truthy (answer (u_name c))"
  shows "new_mappings_of (unmapped_loop lookup prior names (nm, k, calls, s)) = nm"
  using assms(2)
proof (induction names arbitrary: nm k calls s)
  case Nil
  show ?case by (simp add: new_mappings_of_def)
next
  case (Cons c names)
  obtain t s' where l: "lookup s (u_name c) = (t, s')" by (cases "lookup s (u_name c)")
  with assms(1) [of s "u_name c"] have t: "t = answer (u_name c)" by simp
  show ?case
    using Cons l t by (auto simp: Let_def)
qed

lemma rerun_adds_nothing:
  assumes det: "\<And>s n. fst (lookup s n) = answer n"
  shows "new_mappings_of (process_unmapped lookup
            (updated_mappings (process_unmapped lookup existing names s0) existing) names s1) = []"
proof -
  let ?run = "process_unmapped lookup existing names s0"
  have keys: "fst ` set (new_mappings_of ?run)
      = {n \<in> u_name ` set names. map_of existing n = None \<and> truthy (answer n)}"
    unfolding process_unmapped_def using unmapped_loop_keys [of lookup answer existing names "[]", OF det] by simp
  have "\<forall>c\<in>set names. map_of (updated_mappings ?run existing) (u_name c) \<noteq> None
        \<or> \<not> truthy (answer (u_name c))"
  proof
    fix c assume c: "c \<in> set names"
    show "map_of (updated_mappings ?run existing) (u_name c) \<noteq> None \<or> \<not> truthy (answer (u_name c))"
    proof (cases "map_of existing (u_name c) = None \<and> truthy (answer (u_name c))")
      case True
      with c keys have "u_name c \<in> fst ` set (new_mappings_of ?run)" by blast
      then have "map_of (new_mappings_of ?run) (u_name c) \<noteq> None"
        by (simp add: map_of_eq_None_iff)
      then show ?thesis by (simp add: updated_mappings_def map_of_dict_merge_None)
    next
      case False
      then show ?thesis by (auto simp: updated_mappings_def map_of_dict_merge_None)
    qed
  qed
  from unmapped_loop_nothing_new [OF det this] show ?thesis
    by (simp add: process_unmapped_def)
qed


text \<open>
  C4. With a deterministic resolver: the names passed to the resolver are exactly the
  listed names that are no key of the prior mapping, compared as strings; and running
  again over the same names, with the mapping produced by the first run as the prior
  mapping, adds no entry.
\<close>

theorem unmapped_run_idempotent:
  assumes "\<And>s n. fst (lookup s n) = answer n"
  shows "calls_of (process_unmapped lookup existing names s0)
           = filter (\<lambda>n. map_of existing n = None) (map u_name names) \<and>
         (\<forall>n\<in>set (calls_of (process_unmapped lookup existing names s0)). map_of existing n = None) \<and>
         new_mappings_of (process_unmapped lookup
            (updated_mappings (process_unmapped lookup existing names s0) existing) names s1) = []"
proof -
  have c: "calls_of (process_unmapped lookup existing names s0)
      = filter (\<lambda>n. map_of existing n = None) (map u_name names)"
    by (simp add: process_unmapped_def unmapped_loop_calls)
  then have "\<forall>n\<in>set (calls_of (process_unmapped lookup existing names s0)). map_of existing n = None"
    by simp
  with c rerun_adds_nothing [of lookup answer, OF assms] show ?thesis by blast
qed

theorem unmapped_run_idempotent_witness:
  "new_mappings_of (process_unmapped xy_resolver [] [entry ''X'', entry ''Y''] 0)
     = [(''X'', MStr ''XX''), (''Y'', MStr ''YY'')] \<and>
   calls_of (process_unmapped xy_resolver [] [entry ''X'', entry ''Y''] 0) = [''X'', ''Y''] \<and>
   new_mappings_of (process_unmapped xy_resolver
      (updated_mappings (process_unmapped xy_resolver [] [entry ''X'', entry ''Y''] 0) [])
      [entry ''X'', entry ''Y''] 2) = []"
proof -
  have det: "\<And>s n. fst (xy_resolver s n) = xy_answer n"
    by (simp add: xy_resolver_def)
  note th = unmapped_run_idempotent [of xy_resolver xy_answer "[]" "[entry ''X'', entry ''Y'']" 0 2,
      OF det]
  have a: "new_mappings_of (process_unmapped xy_resolver [] [entry ''X'', entry ''Y''] 0)
     = [(''X'', MStr ''XX''), (''Y'', MStr ''YY'')]"
    by code_simp
  from th have b: "calls_of (process_unmapped xy_resolver [] [entry ''X'', entry ''Y''] 0) = [''X'', ''Y'']"
    by (simp add: entry_def)
  from th have c: "new_mappings_of (process_unmapped xy_resolver
      (updated_mappings (process_unmapped xy_resolver [] [entry ''X'', entry ''Y''] 0) [])
      [entry ''X'', entry ''Y''] 2) = []"
    by blast
  from a b c show ?thesis by (intro conjI)
qed


section \<open>Where null values come from\<close>

lemma truthy_Some: "truthy t \<Longrightarrow> \<exists>x. t = Some x \<and> x \<noteq> [] \<and> json_of_sym t = MStr x"
  by (cases t) (simp_all add: truthy_def json_of_sym_def)

lemma update_inv:
  "P n v \<Longrightarrow> \<forall>(k, v)\<in>set d. P k v \<Longrightarrow> \<forall>(k, v)\<in>set (AList.update n v d). P k v"
  using set_update_subset [of n v d] by auto

text \<open>What holds of every entry that one of the loops adds holds of every entry of its result.\<close>

lemma companies_loop_inv:
  assumes "\<forall>(k, v)\<in>set m. P k v"
    and "co_name ` set cs \<subseteq> N"
    and "\<And>s n. n \<in> N \<Longrightarrow> truthy (fst (lookup s n)) \<Longrightarrow> P n (json_of_sym (fst (lookup s n)))"
  shows "\<forall>(k, v)\<in>set (fst (companies_loop lookup cs (m, s))). P k v"
  using assms(1,2)
proof (induction cs arbitrary: m s)
  case Nil
  then show ?case by simp
next
  case (Cons c cs)
  obtain t s' where l: "lookup s (co_name c) = (t, s')" by (cases "lookup s (co_name c)")
  from Cons.prems(2) have N: "co_name c \<in> N" "co_name ` set cs \<subseteq> N" by simp_all
  show ?case
  proof (cases "map_of m (co_name c) = None \<and> truthy t")
    case True
    with assms(3) [OF N(1), of s] l have "P (co_name c) (json_of_sym t)" by simp
    from update_inv [of P, OF this Cons.prems(1)]
    have "\<forall>(k, v)\<in>set (AList.update (co_name c) (json_of_sym t) m). P k v" .
    from Cons.IH [OF this N(2)] show ?thesis using True l by (simp add: Let_def)
  next
    case False
    from Cons.IH [OF Cons.prems(1) N(2)] show ?thesis using False l by (auto simp: Let_def)
  qed
qed

lemma subsectors_loop_inv:
  assumes "\<forall>(k, v)\<in>set (fst st). P k v"
    and "(\<Union>sub\<in>set subs. co_name ` set (sub_companies sub)) \<subseteq> N"
    and "\<And>s n. n \<in> N \<Longrightarrow> truthy (fst (lookup s n)) \<Longrightarrow> P n (json_of_sym (fst (lookup s n)))"
  shows "\<forall>(k, v)\<in>set (fst (subsectors_loop lookup subs st)). P k v"
  using assms(1,2)
proof (induction subs arbitrary: st)
  case Nil
  then show ?case by simp
next
  case (Cons sub subs)
  obtain m s where st: "st = (m, s)" by (cases st)
  from Cons.prems(2) have N: "co_name ` set (sub_companies sub) \<subseteq> N"
      "(\<Union>sub\<in>set subs. co_name ` set (sub_companies sub)) \<subseteq> N" by simp_all
  from Cons.prems(1) have "\<forall>(k, v)\<in>set m. P k v" by (simp add: st)
  have "\<forall>(k, v)\<in>set (fst (companies_loop lookup (sub_companies sub) (m, s))). P k v"
  proof (rule companies_loop_inv [where N = N and P = P])
    show "\<forall>(k, v)\<in>set m. P k v" by fact
    show "co_name ` set (sub_companies sub) \<subseteq> N" by fact
    show "P n (json_of_sym (fst (lookup s n)))" if "n \<in> N" "truthy (fst (lookup s n))" for s n
      using that by (rule assms(3))
  qed
  from Cons.IH [OF this N(2)] show ?case by (simp add: st)
qed

lemma sectors_loop_inv:
  assumes "\<forall>(k, v)\<in>set (fst st). P k v"
    and "set (company_names secs) \<subseteq> N"
    and "\<And>s n. n \<in> N \<Longrightarrow> truthy (fst (lookup s n)) \<Longrightarrow> P n (json_of_sym (fst (lookup s n)))"
  shows "\<forall>(k, v)\<in>set (fst (sectors_loop lookup secs st)). P k v"
  using assms(1,2)
proof (induction secs arbitrary: st)
  case Nil
  then show ?case by simp
next
  case (Cons sec secs)
  from Cons.prems(2) have N: "(\<Union>sub\<in>set (sec_subsectors sec). co_name ` set (sub_companies sub)) \<subseteq> N"
      "set (company_names secs) \<subseteq> N" by (auto simp: company_names_def)
  have "\<forall>(k, v)\<in>set (fst (subsectors_loop lookup (sec_subsectors sec) st)). P k v"
  proof (rule subsectors_loop_inv [where N = N and P = P])
    show "\<forall>(k, v)\<in>set (fst st). P k v" by fact
    show "(\<Union>sub\<in>set (sec_subsectors sec). co_name ` set (sub_companies sub)) \<subseteq> N" by fact
    show "P n (json_of_sym (fst (lookup s n)))" if "n \<in> N" "truthy (fst (lookup s n))" for s n
      using that by (rule assms(3))
  qed
  from Cons.IH [OF this N(2)] show ?case by simp
qed

lemma unmapped_loop_inv:
  assumes "\<forall>(k, v)\<in>set nm. P k v"
    and "u_name ` set names \<subseteq> N"
    and "\<And>s n. n \<in> N \<Longrightarrow> map_of ex n = None \<Longrightarrow> truthy (fst (lookup s n))
           \<Longrightarrow> P n (json_of_sym (fst (lookup s n)))"
  shows "\<forall>(k, v)\<in>set (new_mappings_of (unmapped_loop lookup ex names (nm, k0, calls, s))). P k v"
  using assms(1,2)
proof (induction names arbitrary: nm k0 calls s)
  case Nil
  then show ?case by (simp add: new_mappings_of_def)
next
  case (Cons c names)
  obtain t s' where l: "lookup s (u_name c) = (t, s')" by (cases "lookup s (u_name c)")
  from Cons.prems(2) have N: "u_name c \<in> N" "u_name ` set names \<subseteq> N" by simp_all
  show ?case
  proof (cases "map_of ex (u_name c) = None \<and> truthy t")
    case True
    with assms(3) [OF N(1), of s] l have "P (u_name c) (json_of_sym t)" by simp
    from update_inv [of P, OF this Cons.prems(1)]
    have "\<forall>(k, v)\<in>set (AList.update (u_name c) (json_of_sym t) nm). P k v" .
    from Cons.IH [OF this N(2)] show ?thesis using True l by (simp add: Let_def)
  next
    case False
    from Cons.IH [OF Cons.prems(1) N(2)] show ?thesis using False l by (auto simp: Let_def)
  qed
qed

text \<open>The loop of \<open>process_unmapped_companies\<close> stores the answers that are symbols.\<close>

lemma unmapped_loop_store:
  "new_mappings_of (unmapped_loop lookup ex names (nm, k0, calls, s))
     = store_answers (answers lookup s (filter (\<lambda>n. map_of ex n = None) (map u_name names))) nm"
proof (induction names arbitrary: nm k0 calls s)
  case Nil
  show ?case by (simp add: new_mappings_of_def store_answers_def)
next
  case (Cons c names)
  obtain t s' where l: "lookup s (u_name c) = (t, s')" by (cases "lookup s (u_name c)")
  show ?case
    using Cons.IH l by (simp add: Let_def store_answers_def)
qed

text \<open>With a resolver whose answer depends on the name only, the map built is known.\<close>

lemma companies_loop_map_of:
  assumes "\<And>s n. fst (lookup s n) = answer n"
  shows "map_of (fst (companies_loop lookup cs (m, s))) k
     = (case map_of m k of
          Some v \<Rightarrow> Some v
        | None \<Rightarrow> if k \<in> co_name ` set cs \<and> truthy (answer k) then Some (json_of_sym (answer k)) else None)"
proof (induction cs arbitrary: m s)
  case Nil
  show ?case by (simp split: option.splits)
next
  case (Cons c cs)
  obtain t s' where l: "lookup s (co_name c) = (t, s')" by (cases "lookup s (co_name c)")
  with assms [of s "co_name c"] have t: "t = answer (co_name c)" by simp
  show ?case
    using Cons.IH l t by (auto simp: Let_def update_conv' split: option.splits)
qed

lemma subsectors_loop_map_of:
  assumes "\<And>s n. fst (lookup s n) = answer n"
  shows "map_of (fst (subsectors_loop lookup subs st)) k
     = (case map_of (fst st) k of
          Some v \<Rightarrow> Some v
        | None \<Rightarrow> if k \<in> (\<Union>sub\<in>set subs. co_name ` set (sub_companies sub)) \<and> truthy (answer k)
                  then Some (json_of_sym (answer k)) else None)"
proof (induction subs arbitrary: st)
  case Nil
  show ?case by (simp split: option.splits)
next
  case (Cons sub subs)
  obtain m s where st: "st = (m, s)" by (cases st)
  show ?case
    unfolding st
    by (simp add: Cons.IH companies_loop_map_of [of lookup answer, OF assms] split: option.splits)
qed

lemma sectors_loop_map_of:
  assumes "\<And>s n. fst (lookup s n) = answer n"
  shows "map_of (fst (sectors_loop lookup secs st)) k
     = (case map_of (fst st) k of
          Some v \<Rightarrow> Some v
        | None \<Rightarrow> if k \<in> set (company_names secs) \<and> truthy (answer k)
                  then Some (json_of_sym (answer k)) else None)"
proof (induction secs arbitrary: st)
  case Nil
  show ?case by (simp add: company_names_def split: option.splits)
next
  case (Cons sec secs)
  have n: "set (company_names (sec # secs))
      = (\<Union>sub\<in>set (sec_subsectors sec). co_name ` set (sub_companies sub)) \<union> set (company_names secs)"
    by (auto simp: company_names_def)
  show ?case
    unfolding n
    by (simp add: Cons.IH subsectors_loop_map_of [of lookup answer, OF assms] split: option.splits)
qed

text \<open>The Perplexity loop stores the \<open>sym\<close> of every result, null or not.\<close>

lemma find_append_cases:
  "find P (xs @ ys) = (case find P xs of None \<Rightarrow> find P ys | Some x \<Rightarrow> Some x)"
  by (induction xs) simp_all

lemma add_new_mappings_map_of:
  "map_of (add_new_mappings results nm) k
     = (case find (\<lambda>r. t_name r = k) (rev results) of
          Some r \<Rightarrow> Some (json_of_sym (t_sym r))
        | None \<Rightarrow> map_of nm k)"
  by (induction results arbitrary: nm) (auto simp: find_append_cases update_conv' split: option.splits)

lemma add_new_mappings_append:
  "add_new_mappings (a @ b) nm = add_new_mappings b (add_new_mappings a nm)"
  by (induction a arbitrary: nm) simp_all

lemma batches_loop_results:
  "fst (batches_loop provider n companies (nm, s))
     = add_new_mappings (batch_results provider n companies s) nm"
proof (induction "length companies" arbitrary: companies nm s rule: less_induct)
  case less
  show ?case
  proof (cases "n = 0 \<or> companies = []")
    case True
    then show ?thesis
      by (subst batches_loop.simps, subst batch_results.simps) simp
  next
    case False
    obtain results s' where p: "provider s (take n companies) = (results, s')"
      by (cases "provider s (take n companies)")
    from False have "length (drop n companies) < length companies" by simp
    from less [OF this, of "add_new_mappings results nm" s'] False p show ?thesis
      by (subst batches_loop.simps, subst batch_results.simps) (simp add: add_new_mappings_append)
  qed
qed


text \<open>
  C10. Whatever the taxonomy and the resolver, every entry that the loops of
  \<open>create_company_ticker_map\<close> and the loop of \<open>process_unmapped_companies\<close> add has
  the name of a listed company as its key and, as its value, a non-empty string that the
  resolver returned for that name; the loop of \<open>process_unmapped_companies\<close> stores,
  of the answers to the names it asks, exactly those that are a symbol; and with a
  resolver whose answer depends on the name only, \<open>create_company_ticker_map\<close> maps
  exactly the listed names for which the answer is a symbol, to that symbol. A key of the
  prior mapping whose value is null is skipped: its name is not passed to the resolver.
  The Perplexity flow stores, for every result of every batch, the \<open>sym\<close> of the result
  under its name, whether it is null or not; so a result with a null \<open>sym\<close> gives a key
  with a null value.
\<close>

theorem null_values_only_from_perplexity:
  "(\<forall>(k, v)\<in>set (fst (create_company_ticker_map lookup market s)).
      k \<in> set (company_names market) \<and> is_symbol v \<and>
      (\<exists>s' t. fst (lookup s' k) = Some t \<and> t \<noteq> [] \<and> v = MStr t)) \<and>
   ((\<forall>s n. fst (lookup s n) = answer n) \<longrightarrow>
      (\<forall>k. map_of (fst (create_company_ticker_map lookup market s)) k
             = (if k \<in> set (company_names market) \<and> truthy (answer k)
                then Some (json_of_sym (answer k)) else None))) \<and>
   new_mappings_of (process_unmapped lookup existing names s)
     = store_answers (answers lookup s (filter (\<lambda>n. map_of existing n = None) (map u_name names))) [] \<and>
   (\<forall>(k, v)\<in>set (new_mappings_of (process_unmapped lookup existing names s)).
      k \<in> u_name ` set names \<and> map_of existing k = None \<and> is_symbol v \<and>
      (\<exists>s' t. fst (lookup s' k) = Some t \<and> t \<noteq> [] \<and> v = MStr t)) \<and>
   (map_of existing n = Some MNull \<longrightarrow> n \<notin> set (calls_of (process_unmapped lookup existing names s))) \<and>
   (\<forall>k. map_of (add_new_mappings results nm) k
          = (case find (\<lambda>r. t_name r = k) (rev results) of
               Some r \<Rightarrow> Some (json_of_sym (t_sym r))
             | None \<Rightarrow> map_of nm k)) \<and>
   (\<forall>r\<in>set results. t_name r \<in> fst ` set (add_new_mappings results nm)) \<and>
   (0 < batch_size \<longrightarrow>
      (\<exists>u'. perplexity_new_mappings provider batch_size companies u
              = Inr (add_new_mappings (batch_results provider (nat batch_size) companies u) [], u'))) \<and>
   perplexity_new_mappings no_symbol_provider 20 [entry ''X''] () = Inr ([(''X'', MNull)], ())"
proof -
  let ?P = "\<lambda>k v. is_symbol v \<and> (\<exists>s' t. fst (lookup s' k) = Some t \<and> t \<noteq> [] \<and> v = MStr t)"
  have step: "?P n (json_of_sym (fst (lookup s n)))" if "truthy (fst (lookup s n))" for s n
    using truthy_Some [OF that] by (auto simp: is_symbol_def)
  have a: "\<forall>(k, v)\<in>set (fst (create_company_ticker_map lookup market s)).
      k \<in> set (company_names market) \<and> is_symbol v \<and>
      (\<exists>s' t. fst (lookup s' k) = Some t \<and> t \<noteq> [] \<and> v = MStr t)"
    unfolding create_company_ticker_map_def
  proof (rule sectors_loop_inv [where N = "set (company_names market)"])
    show "\<forall>(k, v)\<in>set (fst ([], s)). k \<in> set (company_names market) \<and> is_symbol v \<and>
        (\<exists>s' t. fst (lookup s' k) = Some t \<and> t \<noteq> [] \<and> v = MStr t)"
      by simp
    show "set (company_names market) \<subseteq> set (company_names market)" by simp
    show "n \<in> set (company_names market) \<and> is_symbol (json_of_sym (fst (lookup s n))) \<and>
        (\<exists>s' t. fst (lookup s' n) = Some t \<and> t \<noteq> [] \<and> json_of_sym (fst (lookup s n)) = MStr t)"
      if "n \<in> set (company_names market)" "truthy (fst (lookup s n))" for s n
      using that step by blast
  qed
  have b: "(\<forall>s n. fst (lookup s n) = answer n) \<longrightarrow>
      (\<forall>k. map_of (fst (create_company_ticker_map lookup market s)) k
             = (if k \<in> set (company_names market) \<and> truthy (answer k)
                then Some (json_of_sym (answer k)) else None))"
  proof (intro impI allI)
    fix k assume "\<forall>s n. fst (lookup s n) = answer n"
    then have det: "\<And>s n. fst (lookup s n) = answer n" by blast
    show "map_of (fst (create_company_ticker_map lookup market s)) k
             = (if k \<in> set (company_names market) \<and> truthy (answer k)
                then Some (json_of_sym (answer k)) else None)"
      unfolding create_company_ticker_map_def
      by (simp add: sectors_loop_map_of [of lookup answer, OF det])
  qed
  have c: "new_mappings_of (process_unmapped lookup existing names s)
     = store_answers (answers lookup s (filter (\<lambda>n. map_of existing n = None) (map u_name names))) []"
    unfolding process_unmapped_def by (rule unmapped_loop_store)
  have d: "\<forall>(k, v)\<in>set (new_mappings_of (process_unmapped lookup existing names s)).
      k \<in> u_name ` set names \<and> map_of existing k = None \<and> is_symbol v \<and>
      (\<exists>s' t. fst (lookup s' k) = Some t \<and> t \<noteq> [] \<and> v = MStr t)"
    unfolding process_unmapped_def
  proof (rule unmapped_loop_inv [where N = "u_name ` set names"])
    show "\<forall>(k, v)\<in>set []. k \<in> u_name ` set names \<and> map_of existing k = None \<and> is_symbol v \<and>
        (\<exists>s' t. fst (lookup s' k) = Some t \<and> t \<noteq> [] \<and> v = MStr t)"
      by simp
    show "u_name ` set names \<subseteq> u_name ` set names" by simp
    show "n \<in> u_name ` set names \<and> map_of existing n = None \<and>
        is_symbol (json_of_sym (fst (lookup s n))) \<and>
        (\<exists>s' t. fst (lookup s' n) = Some t \<and> t \<noteq> [] \<and> json_of_sym (fst (lookup s n)) = MStr t)"
      if "n \<in> u_name ` set names" "map_of existing n = None" "truthy (fst (lookup s n))" for s n
      using that step by blast
  qed
  have e: "map_of existing n = Some MNull \<longrightarrow> n \<notin> set (calls_of (process_unmapped lookup existing names s))"
    by (simp add: process_unmapped_def unmapped_loop_calls)
  have f: "\<forall>k. map_of (add_new_mappings results nm) k
          = (case find (\<lambda>r. t_name r = k) (rev results) of
               Some r \<Rightarrow> Some (json_of_sym (t_sym r))
             | None \<Rightarrow> map_of nm k)"
    by (simp add: add_new_mappings_map_of)
  have g: "\<forall>r\<in>set results. t_name r \<in> fst ` set (add_new_mappings results nm)"
  proof
    fix r assume "r \<in> set results"
    then have "find (\<lambda>x. t_name x = t_name r) (rev results) \<noteq> None"
      by (auto simp: find_None_iff)
    then have "map_of (add_new_mappings results nm) (t_name r) \<noteq> None"
      by (auto simp: add_new_mappings_map_of)
    then show "t_name r \<in> fst ` set (add_new_mappings results nm)"
      by (simp add: map_of_eq_None_iff)
  qed
  have h: "0 < batch_size \<longrightarrow>
      (\<exists>u'. perplexity_new_mappings provider batch_size companies u
              = Inr (add_new_mappings (batch_results provider (nat batch_size) companies u) [], u'))"
  proof
    assume pos: "0 < batch_size"
    obtain new u' where bl: "batches_loop provider (nat batch_size) companies ([], u) = (new, u')"
      by (cases "batches_loop provider (nat batch_size) companies ([], u)")
    with batches_loop_results [of provider "nat batch_size" companies "[]" u]
    have "new = add_new_mappings (batch_results provider (nat batch_size) companies u) []" by simp
    with pos bl show "\<exists>u'. perplexity_new_mappings provider batch_size companies u
              = Inr (add_new_mappings (batch_results provider (nat batch_size) companies u) [], u')"
      by (simp add: perplexity_new_mappings_def)
  qed
  have i: "perplexity_new_mappings no_symbol_provider 20 [entry ''X''] () = Inr ([(''X'', MNull)], ())"
    by (simp add: perplexity_new_mappings_def no_symbol_provider_def entry_def json_of_sym_def)
  from a b c d e f g h i show ?thesis by (intro conjI)
qed

theorem null_values_only_from_perplexity_witness:
  "map_of (fst (create_company_ticker_map xy_resolver xq_market 0)) ''X'' = Some (MStr ''XX'') \<and>
   map_of (fst (create_company_ticker_map xy_resolver xq_market 0)) ''Q'' = None \<and>
   ''Z'' \<notin> set (calls_of (process_unmapped xy_resolver [(''Z'', MNull)] [entry ''X'', entry ''Z''] 0)) \<and>
   (\<exists>u'. perplexity_new_mappings no_symbol_provider 20 [entry ''X''] ()
           = Inr (add_new_mappings (batch_results no_symbol_provider (nat 20) [entry ''X''] ()) [], u'))"
proof -
  note th = null_values_only_from_perplexity [of xy_resolver xq_market 0 xy_answer
      "[(''Z'', MNull)]" "[entry ''X'', entry ''Z'']" "''Z''" "[]" "[]" 20 no_symbol_provider
      "[entry ''X'']" "()"]
  have det: "\<forall>s n. fst (xy_resolver s n) = xy_answer n"
    by (simp add: xy_resolver_def)
  from th [THEN conjunct2, THEN conjunct1, THEN mp, OF det]
  have m: "\<And>k. map_of (fst (create_company_ticker_map xy_resolver xq_market 0)) k
             = (if k \<in> set (company_names xq_market) \<and> truthy (xy_answer k)
                then Some (json_of_sym (xy_answer k)) else None)"
    by blast
  have x: "map_of (fst (create_company_ticker_map xy_resolver xq_market 0)) ''X'' = Some (MStr ''XX'')"
    unfolding m by (simp add: company_names_def xq_market_def xy_answer_def truthy_def json_of_sym_def)
  have q: "map_of (fst (create_company_ticker_map xy_resolver xq_market 0)) ''Q'' = None"
    unfolding m by (simp add: xy_answer_def truthy_def)
  have p: "map_of [(''Z'', MNull)] ''Z'' = Some MNull" by simp
  from th have "map_of [(''Z'', MNull)] ''Z'' = Some MNull \<longrightarrow>
      ''Z'' \<notin> set (calls_of (process_unmapped xy_resolver [(''Z'', MNull)] [entry ''X'', entry ''Z''] 0))"
    by (elim conjE)
  with p have z: "''Z'' \<notin> set (calls_of (process_unmapped xy_resolver [(''Z'', MNull)] [entry ''X'', entry ''Z''] 0))"
    by (rule rev_mp)
  have pos: "(0::int) < 20" by simp
  from th have "(0::int) < 20 \<longrightarrow>
      (\<exists>u'. perplexity_new_mappings no_symbol_provider 20 [entry ''X''] ()
           = Inr (add_new_mappings (batch_results no_symbol_provider (nat 20) [entry ''X''] ()) [], u'))"
    by (elim conjE)
  with pos have b: "\<exists>u'. perplexity_new_mappings no_symbol_provider 20 [entry ''X''] ()
           = Inr (add_new_mappings (batch_results no_symbol_provider (nat 20) [entry ''X''] ()) [], u')"
    by (rule rev_mp)
  from x q z b show ?thesis by (intro conjI)
qed


section \<open>Taxonomy enrichment in input order\<close>

lemma those_map_Some: "those (map Some xs) = Some xs"
  by (induction xs) simp_all

lemma fold_complete_task:
  "length slots = length tasks \<Longrightarrow>
   length (fold (complete_task run tasks) order slots) = length tasks \<and>
   (\<forall>i<length tasks. fold (complete_task run tasks) order slots ! i
        = (if i \<in> set order then Some (run (tasks ! i)) else slots ! i))"
proof (induction order arbitrary: slots)
  case Nil
  then show ?case by simp
next
  case (Cons j order)
  let ?slots = "complete_task run tasks j slots"
  have len: "length ?slots = length tasks"
    using Cons.prems by (simp add: complete_task_def)
  have nth: "?slots ! i = (if i = j then Some (run (tasks ! i)) else slots ! i)"
    if "i < length tasks" for i
    using that Cons.prems by (auto simp: complete_task_def)
  from Cons.IH [OF len] nth show ?case by auto
qed

lemma gather_all:
  assumes "{0..<length tasks} \<subseteq> set order"
  shows "gather run tasks order = Some (map run tasks)"
proof -
  let ?F = "fold (complete_task run tasks) order (replicate (length tasks) None)"
  from fold_complete_task [of "replicate (length tasks) None" tasks run order]
  have len: "length ?F = length tasks"
    and nth: "\<forall>i<length tasks. ?F ! i
        = (if i \<in> set order then Some (run (tasks ! i)) else replicate (length tasks) None ! i)"
    by simp_all
  have "?F = map Some (map run tasks)"
  proof (rule nth_equalityI)
    show "length ?F = length (map Some (map run tasks))" using len by simp
    fix i assume "i < length ?F"
    then have i: "i < length tasks" using len by simp
    with assms have "i \<in> set order" by auto
    with nth i show "?F ! i = map Some (map run tasks) ! i" by simp
  qed
  then show ?thesis unfolding gather_def by (simp only: those_map_Some)
qed

lemma drop_eq_Cons:
  assumes "drop i xs = y # ys"
  shows "i < length xs \<and> xs ! i = y \<and> drop (Suc i) xs = ys"
proof -
  from assms have i: "i < length xs" by (cases "i < length xs") auto
  then have "drop i xs = xs ! i # drop (Suc i) xs" by (rule Cons_nth_drop_Suc [symmetric])
  with assms i show ?thesis by simp
qed

lemma enrich_subsectors_results:
  "drop idx results = map g subs @ tl_rest \<Longrightarrow>
   enrich_subsectors subs results idx acc
     = Inr (acc @ map (\<lambda>sub. \<lparr>sub_name = sub, sub_companies = g sub\<rparr>) subs, idx + length subs)"
proof (induction subs arbitrary: idx acc)
  case Nil
  show ?case by simp
next
  case (Cons sub subs)
  then have "drop idx results = g sub # (map g subs @ tl_rest)" by simp
  from drop_eq_Cons [OF this]
  have a: "idx < length results" "results ! idx = g sub" "drop (Suc idx) results = map g subs @ tl_rest"
    by simp_all
  from Cons.IH [OF a(3)] a(1,2) show ?case by simp
qed

lemma update_sectors_results:
  "drop idx results = map run (tasks_of secs) @ tl_rest \<Longrightarrow>
   update_sectors secs results idx
     = Inr (map (\<lambda>s. \<lparr>sec_name = ms_name s,
                       sec_subsectors = map (\<lambda>sub. \<lparr>sub_name = sub, sub_companies = run (ms_name s, sub)\<rparr>)
                                            (ms_subsectors s)\<rparr>) secs)"
proof (induction secs arbitrary: idx)
  case Nil
  show ?case by simp
next
  case (Cons s secs)
  let ?g = "\<lambda>sub. run (ms_name s, sub)"
  from Cons.prems
  have d: "drop idx results = map ?g (ms_subsectors s) @ (map run (tasks_of secs) @ tl_rest)"
    by (simp add: tasks_of_def comp_def)
  have "drop (idx + length (ms_subsectors s)) results
      = drop (length (ms_subsectors s)) (drop idx results)"
    by (simp add: add.commute)
  also have "\<dots> = map run (tasks_of secs) @ tl_rest" unfolding d by simp
  finally have rest: "drop (idx + length (ms_subsectors s)) results = map run (tasks_of secs) @ tl_rest" .
  from enrich_subsectors_results [OF d, of "[]"] Cons.IH [OF rest] show ?case by simp
qed

lemma concat_enriched_sectors:
  "concat (map sec_subsectors (enriched_sectors api market)) = map (enriched_entry api) (tasks_of market)"
  by (induction market) (simp_all add: enriched_sectors_def tasks_of_def comp_def)

text \<open>
  C6. When every task completes, in whatever order, \<open>process_all_sectors\<close> returns the
  sectors of the input with one enriched entry per subsector, that is one entry per pair
  in the order of the input, each holding the result of its own call: nine placeholder
  companies named after the subsector when the call raised, and the companies that the
  provider returned otherwise.
\<close>

theorem process_all_sectors_in_order:
  assumes "{0..<length (tasks_of market)} \<subseteq> set order"
  shows "process_all_sectors api order market = Some (Inr (enriched_sectors api market)) \<and>
         concat (map sec_subsectors (enriched_sectors api market))
           = map (enriched_entry api) (tasks_of market) \<and>
         length (concat (map sec_subsectors (enriched_sectors api market))) = length (tasks_of market) \<and>
         (\<forall>e. api sector subsector = Inl e \<longrightarrow>
            enriched_entry api (sector, subsector)
              = \<lparr>sub_name = subsector,
                 sub_companies = replicate 9 \<lparr>co_name = ''Error processing '' @ subsector,
                                              co_market_cap = ''N/A''\<rparr>\<rparr>) \<and>
         (\<forall>companies. api sector subsector = Inr companies \<longrightarrow>
            enriched_entry api (sector, subsector) = \<lparr>sub_name = subsector, sub_companies = companies\<rparr>)"
proof -
  let ?run = "\<lambda>(sector_name, subsector). get_companies_for_subsector api sector_name subsector"
  have g: "gather ?run (tasks_of market) order = Some (map ?run (tasks_of market))"
    using assms by (rule gather_all)
  have "update_sectors market (map ?run (tasks_of market)) 0
      = Inr (map (\<lambda>s. \<lparr>sec_name = ms_name s,
                       sec_subsectors = map (\<lambda>sub. \<lparr>sub_name = sub, sub_companies = ?run (ms_name s, sub)\<rparr>)
                                            (ms_subsectors s)\<rparr>) market)"
    by (rule update_sectors_results [where tl_rest = "[]"]) simp
  then have a: "process_all_sectors api order market = Some (Inr (enriched_sectors api market))"
    by (simp add: process_all_sectors_def g enriched_sectors_def enriched_entry_def)
  have b: "concat (map sec_subsectors (enriched_sectors api market))
           = map (enriched_entry api) (tasks_of market)"
    by (rule concat_enriched_sectors)
  then have c: "length (concat (map sec_subsectors (enriched_sectors api market))) = length (tasks_of market)"
    by simp
  have d: "\<forall>e. api sector subsector = Inl e \<longrightarrow>
            enriched_entry api (sector, subsector)
              = \<lparr>sub_name = subsector,
                 sub_companies = replicate 9 \<lparr>co_name = ''Error processing '' @ subsector,
                                              co_market_cap = ''N/A''\<rparr>\<rparr>"
    by (simp add: enriched_entry_def get_companies_for_subsector_def placeholder_def)
  have e: "\<forall>companies. api sector subsector = Inr companies \<longrightarrow>
            enriched_entry api (sector, subsector) = \<lparr>sub_name = subsector, sub_companies = companies\<rparr>"
    by (simp add: enriched_entry_def get_companies_for_subsector_def)
  from a b c d e show ?thesis by (intro conjI)
qed

theorem process_all_sectors_in_order_witness:
  "process_all_sectors failing_on_B [2, 0, 1]
     [\<lparr>ms_name = ''S1'', ms_subsectors = [''A'', ''B'']\<rparr>, \<lparr>ms_name = ''S2'', ms_subsectors = [''C'']\<rparr>]
   = Some (Inr
       [\<lparr>sec_name = ''S1'', sec_subsectors =
           [\<lparr>sub_name = ''A'', sub_companies = nine_companies ''A''\<rparr>,
            \<lparr>sub_name = ''B'', sub_companies =
               replicate 9 \<lparr>co_name = ''Error processing B'', co_market_cap = ''N/A''\<rparr>\<rparr>]\<rparr>,
        \<lparr>sec_name = ''S2'', sec_subsectors =
           [\<lparr>sub_name = ''C'', sub_companies = nine_companies ''C''\<rparr>]\<rparr>]) \<and>
   length (nine_companies ''A'') = 9 \<and> length (nine_companies ''C'') = 9"
proof -
  have p: "{0..<length (tasks_of
      [\<lparr>ms_name = ''S1'', ms_subsectors = [''A'', ''B'']\<rparr>, \<lparr>ms_name = ''S2'', ms_subsectors = [''C'']\<rparr>])}
      \<subseteq> set [2, 0, 1]"
    by (auto simp: tasks_of_def)
  note th = process_all_sectors_in_order [OF p, of failing_on_B "''S1''" "''B''"]
  have en: "enriched_sectors failing_on_B
      [\<lparr>ms_name = ''S1'', ms_subsectors = [''A'', ''B'']\<rparr>, \<lparr>ms_name = ''S2'', ms_subsectors = [''C'']\<rparr>]
    = [\<lparr>sec_name = ''S1'', sec_subsectors =
           [\<lparr>sub_name = ''A'', sub_companies = nine_companies ''A''\<rparr>,
            \<lparr>sub_name = ''B'', sub_companies =
               replicate 9 \<lparr>co_name = ''Error processing B'', co_market_cap = ''N/A''\<rparr>\<rparr>]\<rparr>,
        \<lparr>sec_name = ''S2'', sec_subsectors =
           [\<lparr>sub_name = ''C'', sub_companies = nine_companies ''C''\<rparr>]\<rparr>]"
    by (simp add: enriched_sectors_def enriched_entry_def get_companies_for_subsector_def
        failing_on_B_def placeholder_def)
  have n: "length (nine_companies ''A'') = 9" "length (nine_companies ''C'') = 9"
    by (simp_all add: nine_companies_def)
  from th [THEN conjunct1] en n show ?thesis by simp
qed


section \<open>Duplicate tickers\<close>

lemma update_absent: "k \<notin> fst ` set al \<Longrightarrow> AList.update k v al = al @ [(k, v)]"
  by (induction al) auto

lemma companies_sharing_Cons:
  "companies_sharing ((c, v) # m) t = (if v = MStr t then c # companies_sharing m t else companies_sharing m t)"
  by (simp add: companies_sharing_def)

text \<open>The grouping loop: the list kept under a ticker grows by the companies sharing it.\<close>

lemma group_by_ticker_legacy:
  assumes "\<forall>(c, v)\<in>set m. legacy_value v" and "distinct (map fst acc)"
  shows "\<exists>r. group_by_ticker m acc = Inr r \<and> distinct (map fst r) \<and>
            (\<forall>t. map_of r t =
               (if companies_sharing m t = [] then map_of acc t
                else Some ((case map_of acc t of None \<Rightarrow> [] | Some cs \<Rightarrow> cs) @ companies_sharing m t)))"
  using assms
proof (induction m arbitrary: acc)
  case Nil
  then show ?case by (simp add: companies_sharing_def)
next
  case (Cons p m)
  obtain c v where p: "p = (c, v)" by (cases p)
  from Cons.prems have rest: "\<forall>(c, v)\<in>set m. legacy_value v" by simp
  show ?case
  proof (cases v)
    case MNull
    from Cons.IH [OF rest Cons.prems(2)] show ?thesis
      by (auto simp: p MNull companies_sharing_Cons)
  next
    case (MObj sy nt)
    with Cons.prems p show ?thesis by (simp add: legacy_value_def)
  next
    case (MStr t)
    let ?with = "if map_of acc t = None then AList.update t [] acc else acc"
    let ?old = "case map_of acc t of None \<Rightarrow> [] | Some cs \<Rightarrow> cs"
    have w: "map_of ?with t = Some ?old"
      by (auto simp: update_conv')
    let ?acc = "AList.update t (?old @ [c]) ?with"
    have d: "distinct (map fst ?acc)" using Cons.prems(2) by (simp add: distinct_update)
    have m_acc: "map_of ?acc u = (if u = t then Some (?old @ [c]) else map_of acc u)" for u
      by (auto simp: update_conv')
    from Cons.IH [OF rest d] obtain r where r: "group_by_ticker m ?acc = Inr r"
      "distinct (map fst r)"
      "\<forall>u. map_of r u =
               (if companies_sharing m u = [] then map_of ?acc u
                else Some ((case map_of ?acc u of None \<Rightarrow> [] | Some cs \<Rightarrow> cs) @ companies_sharing m u))"
      by blast
    have "group_by_ticker (p # m) acc = Inr r"
      using r(1) w by (simp add: p MStr Let_def)
    moreover have "\<forall>u. map_of r u =
               (if companies_sharing (p # m) u = [] then map_of acc u
                else Some ((case map_of acc u of None \<Rightarrow> [] | Some cs \<Rightarrow> cs) @ companies_sharing (p # m) u))"
    proof
      fix u
      from r(3) have "map_of r u =
               (if companies_sharing m u = [] then map_of ?acc u
                else Some ((case map_of ?acc u of None \<Rightarrow> [] | Some cs \<Rightarrow> cs) @ companies_sharing m u))"
        by blast
      then show "map_of r u =
               (if companies_sharing (p # m) u = [] then map_of acc u
                else Some ((case map_of acc u of None \<Rightarrow> [] | Some cs \<Rightarrow> cs) @ companies_sharing (p # m) u))"
        unfolding m_acc by (auto simp: p MStr companies_sharing_Cons)
    qed
    ultimately show ?thesis using r(2) by blast
  qed
qed

lemma map_of_filter_values:
  "distinct (map fst al) \<Longrightarrow>
   map_of (filter (\<lambda>(k, v). P v) al) k
     = (case map_of al k of None \<Rightarrow> None | Some v \<Rightarrow> if P v then Some v else None)"
proof (induction al)
  case Nil
  show ?case by simp
next
  case (Cons p al)
  obtain k' v' where p: "p = (k', v')" by (cases p)
  from Cons.prems have "k' \<notin> fst ` set al" by (simp add: p)
  then have n: "map_of al k' = None" by (simp add: map_of_eq_None_iff)
  from Cons.prems have "distinct (map fst al)" by simp
  from Cons.IH [OF this] n show ?case by (auto simp: p split: option.splits)
qed

lemma duplicates_legacy:
  assumes "\<forall>(c, v)\<in>set m. legacy_value v"
  shows "\<exists>r. group_by_ticker m [] = Inr r \<and>
     (\<forall>t. map_of (find_duplicates r) t
        = (if length (companies_sharing m t) > 1 then Some (companies_sharing m t) else None))"
proof -
  from group_by_ticker_legacy [OF assms, of "[]"]
  obtain r where r: "group_by_ticker m [] = Inr r" "distinct (map fst r)"
    "\<forall>t. map_of r t = (if companies_sharing m t = [] then None else Some (companies_sharing m t))"
    by auto
  have "map_of (find_duplicates r) t
        = (if length (companies_sharing m t) > 1 then Some (companies_sharing m t) else None)" for t
    unfolding find_duplicates_def
    using map_of_filter_values [OF r(2), of "\<lambda>cs. length cs > 1" t] r(3) by auto
  with r(1) show ?thesis by blast
qed

text \<open>The annotation loop, for a mapping with distinct keys.\<close>

lemma annotate_legacy:
  assumes "\<forall>(c, v)\<in>set m. legacy_value v" and "distinct (map fst m)"
    and "fst ` set acc \<inter> fst ` set m = {}"
    and "\<And>t. map_of dups t
        = (if length (companies_sharing whole t) > 1 then Some (companies_sharing whole t) else None)"
  shows "annotate dups m acc = Inr (acc @ map (\<lambda>(c, v). (c, annotated_entry whole c v)) m)"
  using assms(1-3)
proof (induction m arbitrary: acc)
  case Nil
  show ?case by simp
next
  case (Cons p m)
  obtain c v where p: "p = (c, v)" by (cases p)
  from Cons.prems have rest: "\<forall>(c, v)\<in>set m. legacy_value v" "distinct (map fst m)" by simp_all
  from Cons.prems(3) have c: "c \<notin> fst ` set acc" by (auto simp: p)
  have step: "annotate dups (p # m) acc
      = annotate dups m (AList.update c (annotated_entry whole c v) acc)"
    using Cons.prems(1) assms(4)
    by (cases v) (auto simp: p annotated_entry_def legacy_value_def)
  have upd: "AList.update c (annotated_entry whole c v) acc = acc @ [(c, annotated_entry whole c v)]"
    using c by (rule update_absent)
  have disj: "fst ` set (acc @ [(c, annotated_entry whole c v)]) \<inter> fst ` set m = {}"
    using Cons.prems(2,3) by (auto simp: p)
  from Cons.IH [OF rest disj] show ?case
    unfolding step upd by (simp add: p)
qed


lemma save_mappings_writes:
  "\<exists>out. save_mappings fs m md base
      = Some (out, write_file fs out
                (MappingFile \<lparr>metadata = AList.update ''total_companies'' (JInt (get_total_companies fs)) md,
                             mappings = m\<rparr>)) \<and>
     \<not> path_exists fs out"
  using next_filename_first_free [of fs base] by (auto simp: save_mappings_def)

lemma find_duplicates_nonempty:
  assumes "\<And>t. map_of dups t
        = (if length (companies_sharing m t) > 1 then Some (companies_sharing m t) else None)"
  shows "dups \<noteq> [] \<longleftrightarrow> (\<exists>t. length (companies_sharing m t) > 1)"
proof
  assume "dups \<noteq> []"
  then obtain t cs where "(t, cs) \<in> set dups" by (cases dups) auto
  then have "t \<in> fst ` set dups" by force
  then have "map_of dups t \<noteq> None" by (simp add: map_of_eq_None_iff)
  with assms [of t] show "\<exists>t. length (companies_sharing m t) > 1" by (auto split: if_splits)
next
  assume "\<exists>t. length (companies_sharing m t) > 1"
  then obtain t where "length (companies_sharing m t) > 1" by blast
  with assms [of t] have "map_of dups t \<noteq> None" by simp
  then show "dups \<noteq> []" by auto
qed

text \<open>
  C7. For a mapping file whose values are strings or null: the duplicates give, for each
  ticker shared by more than one company, the list of all companies sharing it, and
  nothing for any other ticker. When there is such a ticker, \<open>clean_duplicate_tickers\<close>
  writes, under a name that did not exist, the mapping in which every company of a shared
  ticker has the note listing the other companies sharing it and every other company has
  a null note; every file that existed, the original mapping file among them, keeps its
  content.
\<close>

theorem clean_duplicate_tickers_annotates:
  assumes "get_latest_mapping_file fs getmtime = Some (latest_file, MappingFile doc)"
    and "map_of fs ''enriched_market_matrix.json'' = Some (MatrixFile market)"
    and "distinct (map fst (mappings doc))"
    and "\<forall>(c, v)\<in>set (mappings doc). legacy_value v"
  shows "(\<exists>r. group_by_ticker (mappings doc) [] = Inr r \<and>
            (\<forall>t. map_of (find_duplicates r) t
               = (if length (companies_sharing (mappings doc) t) > 1
                  then Some (companies_sharing (mappings doc) t) else None))) \<and>
         ((\<exists>t. length (companies_sharing (mappings doc) t) > 1) \<longrightarrow>
            (\<exists>out fs' md. clean_duplicate_tickers fs getmtime = Written out fs' \<and>
               \<not> path_exists fs out \<and>
               (\<forall>p. path_exists fs p \<longrightarrow> map_of fs' p = map_of fs p) \<and>
               map_of fs' out = Some (MappingFile
                 \<lparr>metadata = md,
                  mappings = map (\<lambda>(c, v). (c, annotated_entry (mappings doc) c v)) (mappings doc)\<rparr>))) \<and>
         (\<forall>c t. (c, MStr t) \<in> set (mappings doc) \<and> length (companies_sharing (mappings doc) t) > 1 \<longrightarrow>
            annotated_entry (mappings doc) c (MStr t)
              = MObj (Some t) (Some (''Duplicate ticker used by: '' @
                   py_join '', '' (filter (\<lambda>c'. c' \<noteq> c) (companies_sharing (mappings doc) t))))) \<and>
         (\<forall>c v. (c, v) \<in> set (mappings doc) \<and>
                 \<not> (\<exists>t. v = MStr t \<and> length (companies_sharing (mappings doc) t) > 1) \<longrightarrow>
            (\<exists>sy. annotated_entry (mappings doc) c v = MObj sy None))"
proof -
  let ?m = "mappings doc"
  from duplicates_legacy [OF assms(4)]
  obtain r where r: "group_by_ticker ?m [] = Inr r"
    and dups: "\<And>t. map_of (find_duplicates r) t
        = (if length (companies_sharing ?m t) > 1 then Some (companies_sharing ?m t) else None)"
    by blast
  have a: "\<exists>r. group_by_ticker ?m [] = Inr r \<and>
            (\<forall>t. map_of (find_duplicates r) t
               = (if length (companies_sharing ?m t) > 1 then Some (companies_sharing ?m t) else None))"
    using r dups by blast
  have ann: "annotate (find_duplicates r) ?m [] = Inr (map (\<lambda>(c, v). (c, annotated_entry ?m c v)) ?m)"
    using annotate_legacy [OF assms(4) assms(3), of "[]" "find_duplicates r" ?m] dups by simp
  have b: "\<exists>out fs' md. clean_duplicate_tickers fs getmtime = Written out fs' \<and>
               \<not> path_exists fs out \<and>
               (\<forall>p. path_exists fs p \<longrightarrow> map_of fs' p = map_of fs p) \<and>
               map_of fs' out = Some (MappingFile
                 \<lparr>metadata = md, mappings = map (\<lambda>(c, v). (c, annotated_entry ?m c v)) ?m\<rparr>)"
    if "\<exists>t. length (companies_sharing ?m t) > 1"
  proof -
    from that find_duplicates_nonempty [of "find_duplicates r" ?m] dups
    have ne: "find_duplicates r \<noteq> []" by blast
    let ?md = "[(''source'', JStr ''duplicate_cleanup''), (''original_file'', JStr latest_file),
                (''total_companies'', JInt (count_companies market)),
                (''mapped_companies'', JInt (int (length r)))]"
    let ?new = "map (\<lambda>(c, v). (c, annotated_entry ?m c v)) ?m"
    from save_mappings_writes [of fs ?new ?md "''company_ticker_map.json''"]
    obtain out where out: "save_mappings fs ?new ?md ''company_ticker_map.json''
        = Some (out, write_file fs out
             (MappingFile \<lparr>metadata = AList.update ''total_companies'' (JInt (get_total_companies fs)) ?md,
                          mappings = ?new\<rparr>))"
      and fresh: "\<not> path_exists fs out"
      by blast
    let ?fs' = "write_file fs out
             (MappingFile \<lparr>metadata = AList.update ''total_companies'' (JInt (get_total_companies fs)) ?md,
                          mappings = ?new\<rparr>)"
    have "clean_duplicate_tickers fs getmtime = Written out ?fs'"
      by (simp add: clean_duplicate_tickers_def assms(1,2) r ne ann out Let_def)
    moreover have "\<forall>p. path_exists fs p \<longrightarrow> map_of ?fs' p = map_of fs p"
      using fresh by (simp add: write_file_keeps_others)
    moreover have "map_of ?fs' out = Some (MappingFile
        \<lparr>metadata = AList.update ''total_companies'' (JInt (get_total_companies fs)) ?md, mappings = ?new\<rparr>)"
      by (simp add: write_file_def update_conv')
    ultimately show ?thesis using fresh by blast
  qed
  have c: "\<forall>c t. (c, MStr t) \<in> set ?m \<and> length (companies_sharing ?m t) > 1 \<longrightarrow>
            annotated_entry ?m c (MStr t)
              = MObj (Some t) (Some (''Duplicate ticker used by: '' @
                   py_join '', '' (filter (\<lambda>c'. c' \<noteq> c) (companies_sharing ?m t))))"
    by (simp add: annotated_entry_def)
  have d: "\<forall>c v. (c, v) \<in> set ?m \<and> \<not> (\<exists>t. v = MStr t \<and> length (companies_sharing ?m t) > 1) \<longrightarrow>
            (\<exists>sy. annotated_entry ?m c v = MObj sy None)"
    by (auto simp: annotated_entry_def split: mvalue.splits)
  from a b c d show ?thesis by blast
qed


theorem clean_duplicate_tickers_annotates_witness:
  "(case group_by_ticker abc_mappings [] of
      Inl e \<Rightarrow> False
    | Inr r \<Rightarrow> find_duplicates r = [(''TIK'', [''A'', ''B''])]) \<and>
   clean_duplicate_tickers abc_files newest_is_2 = Written ''company_ticker_map_2.json'' annotated_files \<and>
   (\<exists>out fs' md. clean_duplicate_tickers abc_files newest_is_2 = Written out fs' \<and>
      \<not> path_exists abc_files out \<and>
      map_of fs' out = Some (MappingFile
         \<lparr>metadata = md,
          mappings = map (\<lambda>(c, v). (c, annotated_entry abc_mappings c v)) abc_mappings\<rparr>))"
proof -
  have latest: "get_latest_mapping_file abc_files newest_is_2
      = Some (''company_ticker_map.json'', MappingFile \<lparr>metadata = [], mappings = abc_mappings\<rparr>)"
    by code_simp
  have matrix: "map_of abc_files ''enriched_market_matrix.json'' = Some (MatrixFile [])"
    by (simp add: abc_files_def)
  have keys: "distinct (map fst (mappings \<lparr>metadata = [], mappings = abc_mappings\<rparr>))"
    by (simp add: abc_mappings_def)
  have legacy: "\<forall>(c, v)\<in>set (mappings \<lparr>metadata = [], mappings = abc_mappings\<rparr>). legacy_value v"
    by (simp add: abc_mappings_def legacy_value_def)
  note th = clean_duplicate_tickers_annotates [OF latest matrix keys legacy]
  have "length (companies_sharing abc_mappings ''TIK'') > 1"
    by (simp add: companies_sharing_def abc_mappings_def)
  then have shared: "\<exists>t. length (companies_sharing (mappings \<lparr>metadata = [], mappings = abc_mappings\<rparr>) t) > 1"
    by auto
  from th [THEN conjunct2, THEN conjunct1, THEN mp, OF shared]
  have c: "\<exists>out fs' md. clean_duplicate_tickers abc_files newest_is_2 = Written out fs' \<and>
      \<not> path_exists abc_files out \<and>
      map_of fs' out = Some (MappingFile
         \<lparr>metadata = md,
          mappings = map (\<lambda>(c, v). (c, annotated_entry abc_mappings c v)) abc_mappings\<rparr>)"
    by auto
  have a: "case group_by_ticker abc_mappings [] of
      Inl e \<Rightarrow> False
    | Inr r \<Rightarrow> find_duplicates r = [(''TIK'', [''A'', ''B''])]"
    by code_simp
  have b: "clean_duplicate_tickers abc_files newest_is_2
      = Written ''company_ticker_map_2.json'' annotated_files"
    by code_simp
  from a b c show ?thesis by (intro conjI)
qed


section \<open>The two shapes of a mapping value\<close>

text \<open>
  C8. The claim: each of \<open>fetch_all_company_profiles\<close>, \<open>count_unique_tickers\<close> and
  \<open>clean_duplicate_tickers\<close> accepts a value that is a plain symbol and a value that is
  an object with \<open>sym\<close> and \<open>notes\<close>. The first two branch on the type of the value and
  read the symbol of either shape. \<open>clean_duplicate_tickers\<close> does not: on the mapping
  file that it has itself written for A, B and C, whose values are objects, it raises
  \<open>TypeError\<close>.
\<close>

theorem clean_duplicate_tickers_rejects_objects:
  "clean_duplicate_tickers abc_files newest_is_2 = Written ''company_ticker_map_2.json'' annotated_files \<and>
   get_latest_mapping_file annotated_files newest_is_2
     = Some (''company_ticker_map_2.json'',
         MappingFile \<lparr>metadata = [(''source'', JStr ''duplicate_cleanup''),
                                  (''original_file'', JStr ''company_ticker_map.json''),
                                  (''total_companies'', JInt 0),
                                  (''mapped_companies'', JInt 2)],
                      mappings = annotated_mappings\<rparr>) \<and>
   clean_duplicate_tickers annotated_files newest_is_2 = Raised TypeError \<and>
   count_unique_tickers (get_latest_mapping_file annotated_files newest_is_2) = 2 \<and>
   profile_symbols (map snd annotated_mappings) {} = {''TIK'', ''OTH''} \<and>
   count_unique_tickers (get_latest_mapping_file abc_files newest_is_2) = 2 \<and>
   profile_symbols (map snd abc_mappings) {} = {''TIK'', ''OTH''}"
  by code_simp

end
